theory Spec2Isabelle
  imports Main "HOL-Library.Word"
begin

unbundle bit_operations_syntax

section \<open>Bytes, byte order and slices\<close>

text \<open>
  Octets are 8-bit words, Go's \<open>uint16\<close> and \<open>uint32\<close> are 16-bit and 32-bit words
  (their arithmetic wraps around), Go's \<open>int\<close> and \<open>uint\<close> (64 bit wide, used for
  lengths of slices that fit in memory) are natural numbers. A Go string is a sequence
  of octets, and the conversions \<open>string(b)\<close> and \<open>[]byte(s)\<close> leave the octets as
  they are, so both are modelled by \<open>byte list\<close>.
\<close>

type_synonym byte = "8 word"

text \<open>
  A run-time panic of the Go program is a value: an index or slice bound out of range,
  a nil pointer or nil interface that is used, the close of a closed channel.
\<close>

datatype failure = OutOfRange | NilDereference | CloseOfClosedChannel

definition andThen :: "failure + 'a \<Rightarrow> ('a \<Rightarrow> failure + 'b) \<Rightarrow> failure + 'b" where
  "andThen m f = (case m of Inl e \<Rightarrow> Inl e | Inr x \<Rightarrow> f x)"

text \<open>
  The slice expression \<open>s[lo:hi]\<close>. Go checks \<open>hi\<close> against the capacity of \<open>s\<close>; what
  capacity \<open>append\<close> leaves beyond the length is not fixed by the language, so the model
  takes the length as the bound: every result \<open>Inr\<close> of the model is the result of the
  program, and \<open>Inl OutOfRange\<close> stands for a read that leaves the octets written so far,
  which panics or not with the capacity at hand. The bound is exact for a slice made by
  \<open>make\<close>, for an array and for a string, whose capacity is the length. An index
  expression \<open>s[i]\<close> and the low bound of \<open>s[lo:]\<close> are checked against the length by Go
  as well: the panics of \<open>Uint16\<close>, \<open>Uint32\<close> and \<open>Uint64\<close> below and of \<open>sliceFrom\<close>
  are panics of the program whatever the capacity.
\<close>

definition slice :: "'a list \<Rightarrow> nat \<Rightarrow> nat \<Rightarrow> failure + 'a list" where
  "slice s lo hi =
     (if lo \<le> hi \<and> hi \<le> length s then Inr (take (hi - lo) (drop lo s)) else Inl OutOfRange)"

text \<open>\<open>s[lo:]\<close> is \<open>s[lo:len(s)]\<close>.\<close>

definition sliceFrom :: "'a list \<Rightarrow> nat \<Rightarrow> failure + 'a list" where
  "sliceFrom s lo = slice s lo (length s)"

text \<open>
  A call that fills the slice \<open>s[lo:hi]\<close> with the octets \<open>bs\<close> in place, as
  \<open>PutUint16(by[0:2], v)\<close> does: the bounds of the slice expression are checked, then
  the callee needs room for \<open>bs\<close>.
\<close>

definition store :: "byte list \<Rightarrow> nat \<Rightarrow> nat \<Rightarrow> byte list \<Rightarrow> failure + byte list" where
  "store s lo hi bs =
     (if lo \<le> hi \<and> hi \<le> length s \<and> length bs \<le> hi - lo
      then Inr (take lo s @ bs @ drop (lo + length bs) s)
      else Inl OutOfRange)"

text \<open>
  The builtin \<open>copy(dst, src)\<close> on \<open>dst = s[lo:]\<close>: it copies as many octets as both
  slices have.
\<close>

definition copyAt :: "byte list \<Rightarrow> nat \<Rightarrow> byte list \<Rightarrow> failure + byte list" where
  "copyAt s lo src =
     (if lo \<le> length s
      then (let n = min (length s - lo) (length src)
            in Inr (take lo s @ take n src @ drop (lo + n) s))
      else Inl OutOfRange)"

datatype ByteOrder = BigEndian | LittleEndian

text \<open>\<open>encoding/binary\<close>: the readers index the last octet first, which panics on a short slice.\<close>

definition Uint16 :: "ByteOrder \<Rightarrow> byte list \<Rightarrow> failure + 16 word" where
  "Uint16 endian b =
     (if length b < 2 then Inl OutOfRange
      else Inr (case endian of
          BigEndian \<Rightarrow> ucast (b ! 1) OR push_bit 8 (ucast (b ! 0))
        | LittleEndian \<Rightarrow> ucast (b ! 0) OR push_bit 8 (ucast (b ! 1))))"

definition Uint32 :: "ByteOrder \<Rightarrow> byte list \<Rightarrow> failure + 32 word" where
  "Uint32 endian b =
     (if length b < 4 then Inl OutOfRange
      else Inr (case endian of
          BigEndian \<Rightarrow> ucast (b ! 3) OR push_bit 8 (ucast (b ! 2))
              OR push_bit 16 (ucast (b ! 1)) OR push_bit 24 (ucast (b ! 0))
        | LittleEndian \<Rightarrow> ucast (b ! 0) OR push_bit 8 (ucast (b ! 1))
              OR push_bit 16 (ucast (b ! 2)) OR push_bit 24 (ucast (b ! 3))))"

definition Uint64 :: "ByteOrder \<Rightarrow> byte list \<Rightarrow> failure + 64 word" where
  "Uint64 endian b =
     (if length b < 8 then Inl OutOfRange
      else Inr (case endian of
          BigEndian \<Rightarrow> ucast (b ! 7) OR push_bit 8 (ucast (b ! 6))
              OR push_bit 16 (ucast (b ! 5)) OR push_bit 24 (ucast (b ! 4))
              OR push_bit 32 (ucast (b ! 3)) OR push_bit 40 (ucast (b ! 2))
              OR push_bit 48 (ucast (b ! 1)) OR push_bit 56 (ucast (b ! 0))
        | LittleEndian \<Rightarrow> ucast (b ! 0) OR push_bit 8 (ucast (b ! 1))
              OR push_bit 16 (ucast (b ! 2)) OR push_bit 24 (ucast (b ! 3))
              OR push_bit 32 (ucast (b ! 4)) OR push_bit 40 (ucast (b ! 5))
              OR push_bit 48 (ucast (b ! 6)) OR push_bit 56 (ucast (b ! 7))))"

text \<open>The octets that \<open>PutUint16\<close>, \<open>PutUint32\<close> and \<open>PutUint64\<close> write.\<close>

definition PutUint16 :: "ByteOrder \<Rightarrow> 16 word \<Rightarrow> byte list" where
  "PutUint16 endian v =
     (case endian of
        BigEndian \<Rightarrow> [ucast (drop_bit 8 v), ucast v]
      | LittleEndian \<Rightarrow> [ucast v, ucast (drop_bit 8 v)])"

definition PutUint32 :: "ByteOrder \<Rightarrow> 32 word \<Rightarrow> byte list" where
  "PutUint32 endian v =
     (case endian of
        BigEndian \<Rightarrow> [ucast (drop_bit 24 v), ucast (drop_bit 16 v), ucast (drop_bit 8 v), ucast v]
      | LittleEndian \<Rightarrow> [ucast v, ucast (drop_bit 8 v), ucast (drop_bit 16 v), ucast (drop_bit 24 v)])"

definition PutUint64 :: "ByteOrder \<Rightarrow> 64 word \<Rightarrow> byte list" where
  "PutUint64 endian v =
     (case endian of
        BigEndian \<Rightarrow> [ucast (drop_bit 56 v), ucast (drop_bit 48 v), ucast (drop_bit 40 v),
            ucast (drop_bit 32 v), ucast (drop_bit 24 v), ucast (drop_bit 16 v),
            ucast (drop_bit 8 v), ucast v]
      | LittleEndian \<Rightarrow> [ucast v, ucast (drop_bit 8 v), ucast (drop_bit 16 v),
            ucast (drop_bit 24 v), ucast (drop_bit 32 v), ucast (drop_bit 40 v),
            ucast (drop_bit 48 v), ucast (drop_bit 56 v)])"

section \<open>pcapng options\<close>

text \<open>\<open>type Option struct { Code uint16; Value []byte }\<close>; a \<open>*Option\<close> is an \<open>Option option\<close>.\<close>

record Option =
  Code :: "16 word"
  Value :: "byte list"

definition OptEndofOpt :: "16 word" where "OptEndofOpt = 0"
definition OptComment :: "16 word" where "OptComment = 1"
definition OptSHBUserAppl :: "16 word" where "OptSHBUserAppl = 4"

text \<open>
  \<open>NewOption\<close>: the option at the start of \<open>buff\<close> and the number of octets to skip to
  the next one. \<open>4+length\<close> in \<open>buff[4 : 4+length]\<close> is a \<open>uint16\<close> sum and wraps around;
  \<open>skip\<close> is a \<open>uint\<close>, and \<open>skip & 0x3\<close> its two lowest bits.
\<close>

definition NewOption :: "byte list \<Rightarrow> ByteOrder \<Rightarrow> failure + (Option option \<times> nat)" where
  "NewOption buff endian =
     andThen (Uint16 endian buff) (\<lambda>code.
     andThen (slice buff 2 4) (\<lambda>b24.
     andThen (Uint16 endian b24) (\<lambda>len.
       let skip0 = 4 + unat len;
           skip = (if skip0 AND 3 \<noteq> 0 then skip0 + (4 - (skip0 AND 3)) else skip0)
       in if code \<noteq> OptEndofOpt \<or> len \<noteq> 0
          then andThen (slice buff 4 (unat (4 + len))) (\<lambda>v.
                 Inr (Some \<lparr>Code = code, Value = v\<rparr>, skip))
          else Inr (None, skip))))"

text \<open>\<open>String\<close>: the value as a string.\<close>

definition String :: "Option \<Rightarrow> byte list" where
  "String o' = Value o'"

text \<open>
  \<open>Bytes\<close>: the octets encoding the option. \<open>length\<close> is \<open>uint16(len(value))\<close> and
  \<open>uint16(2+2)+length\<close> a \<open>uint16\<close> sum; \<open>make\<close> returns that many zero octets with
  no spare capacity; \<open>pad[0:4-(length&0x3)]\<close> is that many zero octets.
\<close>

definition Bytes :: "Option option \<Rightarrow> ByteOrder \<Rightarrow> failure + byte list" where
  "Bytes o' endian =
     (case o' of
        None \<Rightarrow> Inr [0, 0, 0, 0]
      | Some opt \<Rightarrow>
          let val = Value opt;
              len = (word_of_nat (length val) :: 16 word);
              by0 = replicate (unat (4 + len)) (0 :: byte)
          in andThen (store by0 0 2 (PutUint16 endian (Code opt))) (\<lambda>by1.
             andThen (store by1 2 4 (PutUint16 endian len)) (\<lambda>by2.
             andThen (copyAt by2 4 val) (\<lambda>by3.
               if len AND 3 \<noteq> 0
               then andThen (slice [0, 0, 0 :: byte] 0 (4 - unat (len AND 3))) (\<lambda>pad.
                      Inr (by3 @ pad))
               else Inr by3))))"

text \<open>The length of an encoded option: \<open>n\<close> rounded up to the next multiple of 4.\<close>

definition roundUp4 :: "nat \<Rightarrow> nat" where
  "roundUp4 n = (if n mod 4 = 0 then n else n + (4 - n mod 4))"

definition padding :: "nat \<Rightarrow> nat" where
  "padding n = (if n mod 4 = 0 then 0 else 4 - n mod 4)"

text \<open>
  The wire layout of an option: code, length, value, zero padding to a 4-octet boundary.
\<close>

definition encoded :: "ByteOrder \<Rightarrow> Option \<Rightarrow> byte list" where
  "encoded e opt =
     PutUint16 e (Code opt) @ PutUint16 e (word_of_nat (length (Value opt)))
       @ Value opt @ replicate (padding (length (Value opt))) 0"

section \<open>Capture targets\<close>

text \<open>\<open>api.Cluster\<close> and \<open>api.Target\<close>; a Go string that is only compared or copied is a \<open>string\<close>.\<close>

record Cluster =
  Context :: string
  UID :: string

record Target =
  Name :: string
  Type :: string
  NetNS :: int
  NetworkInterfaces :: "string list"
  Prefix :: string
  StartTime :: int
  Pid :: int
  NodeName :: string
  Cluster :: "Cluster option"
  CaptureService :: string
  CapturePort :: int

text \<open>The zero value \<open>api.Target{}\<close>.\<close>

definition zeroTarget :: Target where
  "zeroTarget = \<lparr>Name = [], Type = [], NetNS = 0, NetworkInterfaces = [], Prefix = [],
     StartTime = 0, Pid = 0, NodeName = [], Cluster = None, CaptureService = [],
     CapturePort = 0\<rparr>"

section \<open>The stream editor\<close>

definition string_bytes :: "string \<Rightarrow> byte list" where
  "string_bytes s = map (\<lambda>c. of_nat (of_char c)) s"

text \<open>\<open>targetmarker = "---\n# capture target information\n"\<close>\<close>

definition targetmarker :: "byte list" where
  "targetmarker =
     string_bytes (''---'' @ [CHR 0x0A] @ ''# capture target information'' @ [CHR 0x0A])"

text \<open>
  \<open>markerstart.FindStringIndex\<close> for the pattern \<open>(^|\n)\<close> followed by the target marker:
  the leftmost match, as the pair of its start and end. A match starts at 0 with the
  marker itself, or at a line feed that the marker follows. \<open>i\<close> is the position of the
  octets still to be searched.
\<close>

fun markerstartFrom :: "nat \<Rightarrow> byte list \<Rightarrow> (nat \<times> nat) option" where
  "markerstartFrom i [] = None"
| "markerstartFrom i (c # cs) =
     (if i = 0 \<and> take (length targetmarker) (c # cs) = targetmarker
      then Some (0, length targetmarker)
      else if c = 10 \<and> take (length targetmarker) cs = targetmarker
      then Some (i, i + 1 + length targetmarker)
      else markerstartFrom (Suc i) cs)"

definition markerstart :: "byte list \<Rightarrow> (nat \<times> nat) option" where
  "markerstart s = markerstartFrom 0 s"

text \<open>
  \<open>markerend.FindStringIndex\<close> for the pattern \<open>\n---($|\n)\<close>: the leftmost line feed
  followed by three dashes and then by the end of the text or by another line feed.
\<close>

fun markerendFrom :: "nat \<Rightarrow> byte list \<Rightarrow> (nat \<times> nat) option" where
  "markerendFrom i [] = None"
| "markerendFrom i (c # cs) =
     (if c = 10 \<and> take 3 cs = [45, 45, 45] \<and> drop 3 cs = []
      then Some (i, i + 4)
      else if c = 10 \<and> take 3 cs = [45, 45, 45] \<and> take 1 (drop 3 cs) = [10]
      then Some (i, i + 5)
      else markerendFrom (Suc i) cs)"

definition markerend :: "byte list \<Rightarrow> (nat \<times> nat) option" where
  "markerend s = markerendFrom 0 s"

text \<open>Indexing a string, \<open>s[i]\<close>.\<close>

definition byteAt :: "'a list \<Rightarrow> nat \<Rightarrow> failure + 'a" where
  "byteAt s i = (if i < length s then Inr (s ! i) else Inl OutOfRange)"

text \<open>
  The part of \<open>processSHB\<close> that removes the target information from the text of the
  first comment: \<open>start\<close> and \<open>end\<close> are the index pairs of the two matches,
  \<open>end\<close> counted from \<open>start[1]\<close>.
\<close>

definition cutTargetInfo :: "byte list \<Rightarrow> failure + byte list" where
  "cutTargetInfo comment =
     (case markerstart comment of
        None \<Rightarrow> Inr comment
      | Some (start0, start1) \<Rightarrow>
          andThen (byteAt comment start0) (\<lambda>c.
            let start0' = (if c = 10 then start0 + 1 else start0)
            in andThen (sliceFrom comment start1) (\<lambda>rest.
                 case markerend rest of
                   Some (end0, end1) \<Rightarrow>
                     andThen (slice comment 0 start0') (\<lambda>before.
                     andThen (sliceFrom comment (start0' + end0)) (\<lambda>after.
                       Inr (before @ after)))
                 | None \<Rightarrow> slice comment 0 start0')))"

text \<open>
  \<open>ContainerInfo\<close>, the data that \<open>yaml.Marshal\<close> serialises. The YAML library is not
  part of the repository: the editor is given the serialiser as \<open>marshal\<close>, whose result
  \<open>None\<close> is its error.
\<close>

record ClusterInfo =
  ci_UID :: string

record ContainerInfo =
  ContainerName :: string
  ContainerType :: string
  ci_NodeName :: string
  ci_ClusterInfo :: "ClusterInfo option"
  CaptureFilter :: string
  NoProm :: bool

type_synonym marshaller = "ContainerInfo \<Rightarrow> byte list option"

text \<open>
  \<open>StreamEditor\<close>. \<open>Endian\<close> is an interface value, nil until the byte order is known.
  The sink is an \<open>io.Writer\<close> outside the editor and is passed to \<open>Write\<close>.
\<close>

record StreamEditor =
  Endian :: "ByteOrder option"
  passThrough :: bool
  shb :: "byte list"
  shbLen :: "32 word"
  container :: Target
  captureFilter :: string
  noProm :: bool

definition NewStreamEditor :: "Target option \<Rightarrow> string \<Rightarrow> bool \<Rightarrow> StreamEditor" where
  "NewStreamEditor container' captureFilter' noProm' =
     \<lparr>Endian = None, passThrough = False, shb = [], shbLen = 0,
      container = (case container' of None \<Rightarrow> zeroTarget | Some t \<Rightarrow> t),
      captureFilter = captureFilter', noProm = noProm'\<rparr>"

definition theEndian :: "StreamEditor \<Rightarrow> failure + ByteOrder" where
  "theEndian pe = (case Endian pe of None \<Rightarrow> Inl NilDereference | Some e \<Rightarrow> Inr e)"

text \<open>
  \<open>shbLenEndianness\<close>: the byte order and the declared length of the section header
  block, from its first 12 octets; \<open>False\<close> when the block type is not that of a section
  header block.
\<close>

definition shbLenEndianness :: "StreamEditor \<Rightarrow> failure + (bool \<times> StreamEditor)" where
  "shbLenEndianness pe =
     andThen (slice (shb pe) 0 4) (\<lambda>btype.
       if btype \<noteq> [0x0a, 0x0d, 0x0d, 0x0a] then Inr (False, pe)
       else andThen (slice (shb pe) 8 12) (\<lambda>bom.
         let endian = (if bom = [0x1a, 0x2b, 0x3c, 0x4d] then BigEndian else LittleEndian)
         in andThen (slice (shb pe) 4 8) (\<lambda>b48.
            andThen (Uint32 endian b48) (\<lambda>l.
              Inr (True, pe\<lparr>Endian := Some endian, shbLen := l\<rparr>)))))"

text \<open>
  The loop of \<open>processSHB\<close> over the options. \<open>offset\<close> and \<open>shbLen\<close> are \<open>uint32\<close>:
  \<open>shbLen-4\<close> and \<open>offset += uint32(skip)\<close> wrap around, so the loop need not come to
  an end on a block of 4 GiB; the value \<open>None\<close> is the loop that runs forever.
\<close>

partial_function (option) scanOptions ::
  "ByteOrder \<Rightarrow> byte list \<Rightarrow> 32 word \<Rightarrow> 32 word \<Rightarrow> Option list \<Rightarrow> Option option
     \<Rightarrow> (failure + (Option list \<times> Option option)) option" where
  "scanOptions endian buf len offset options firstComment =
     (if offset < len - 4
      then (case andThen (sliceFrom buf (unat offset)) (\<lambda>buff. NewOption buff endian) of
              Inl e \<Rightarrow> Some (Inl e)
            | Inr (opt, skip) \<Rightarrow>
                (case opt of
                   None \<Rightarrow> Some (Inr (options, firstComment))
                 | Some o' \<Rightarrow>
                     if Code o' = OptComment \<and> firstComment = None
                     then scanOptions endian buf len (offset + word_of_nat skip) options (Some o')
                     else scanOptions endian buf len (offset + word_of_nat skip)
                            (options @ [o']) firstComment))
      else Some (Inr (options, firstComment)))"

declare scanOptions.simps [code]

text \<open>\<open>for _, opt := range options { shbOpts = append(shbOpts, opt.Bytes(pe.Endian)...) }\<close>\<close>

fun encodeOptions :: "ByteOrder \<Rightarrow> Option list \<Rightarrow> byte list \<Rightarrow> failure + byte list" where
  "encodeOptions endian [] shbOpts = Inr shbOpts"
| "encodeOptions endian (opt # options) shbOpts =
     andThen (Bytes (Some opt) endian) (\<lambda>bs. encodeOptions endian options (shbOpts @ bs))"

text \<open>\<open>strings.HasSuffix(comment, "\n")\<close>\<close>

definition endsWithNewline :: "byte list \<Rightarrow> bool" where
  "endsWithNewline s = (s \<noteq> [] \<and> last s = 10)"

text \<open>The \<open>ContainerInfo\<close> that \<open>processSHB\<close> fills in from the editor.\<close>

definition containerInfo :: "StreamEditor \<Rightarrow> ContainerInfo" where
  "containerInfo pe =
     \<lparr>ContainerName = Name (container pe),
      ContainerType = Type (container pe),
      ci_NodeName = NodeName (container pe),
      ci_ClusterInfo = (case Cluster (container pe) of
                          None \<Rightarrow> None
                        | Some cluster \<Rightarrow> Some \<lparr>ci_UID = UID cluster\<rparr>),
      CaptureFilter = captureFilter pe,
      NoProm = noProm pe\<rparr>"

text \<open>
  The text of the new comment: the text of the first comment without the old target
  information (or the empty text), a line feed if it is not empty and does not end in
  one, the target marker, and the YAML of the container unless the serialiser fails.
\<close>

definition newComment :: "marshaller \<Rightarrow> StreamEditor \<Rightarrow> Option option \<Rightarrow> failure + byte list" where
  "newComment marshal pe firstComment =
     andThen (case firstComment of
                Some fc \<Rightarrow> cutTargetInfo (String fc)
              | None \<Rightarrow> Inr []) (\<lambda>comment0.
       let comment1 = (if comment0 \<noteq> [] \<and> \<not> endsWithNewline comment0
                       then comment0 @ [10] else comment0);
           comment2 = comment1 @ targetmarker;
           ci = containerInfo pe
       in Inr (case marshal ci of Some y \<Rightarrow> comment2 @ y | None \<Rightarrow> comment2))"

text \<open>
  The second half of \<open>processSHB\<close>: the new block from the retained options and the new
  comment, followed by the octets buffered beyond the old block. \<open>shbLen'\<close> is an \<open>int\<close>;
  the two length fields hold \<open>uint32(shbLen')\<close>.
\<close>

definition rebuildSHB ::
  "marshaller \<Rightarrow> StreamEditor \<Rightarrow> ByteOrder \<Rightarrow> 16 word \<Rightarrow> 16 word \<Rightarrow> Option list
     \<Rightarrow> Option option \<Rightarrow> failure + (byte list \<times> StreamEditor)" where
  "rebuildSHB marshal pe endian major minor options firstComment =
     andThen (newComment marshal pe firstComment) (\<lambda>comment.
     andThen (encodeOptions endian (\<lparr>Code = OptComment, Value = comment\<rparr> # options) [])
       (\<lambda>shbOpts.
       let shbLen' = 4 + 4 + 4 + 2 + 2 + 8 + length shbOpts + 4;
           new0 = replicate shbLen' (0 :: byte)
       in andThen (store new0 0 4 (PutUint32 endian 0x0a0d0d0a)) (\<lambda>new1.
          andThen (store new1 4 8 (PutUint32 endian (word_of_nat shbLen'))) (\<lambda>new2.
          andThen (store new2 8 12 (PutUint32 endian 0x1a2b3c4d)) (\<lambda>new3.
          andThen (store new3 12 14 (PutUint16 endian major)) (\<lambda>new4.
          andThen (store new4 14 16 (PutUint16 endian minor)) (\<lambda>new5.
          andThen (store new5 16 24 (PutUint64 endian (- 1))) (\<lambda>new6.
          andThen (copyAt new6 24 shbOpts) (\<lambda>new7.
          andThen (store new7 (shbLen' - 4) shbLen' (PutUint32 endian (word_of_nat shbLen')))
            (\<lambda>new8.
          andThen (sliceFrom (shb pe) (unat (shbLen pe))) (\<lambda>overspill.
            Inr (new8 @ overspill, pe\<lparr>passThrough := True, shb := []\<rparr>))))))))))))"

text \<open>
  \<open>processSHB\<close>: the fixed fields are read first (the section length only to be logged),
  then the options, then the block is rebuilt.
\<close>

definition processSHB ::
  "marshaller \<Rightarrow> StreamEditor \<Rightarrow> (failure + (byte list \<times> StreamEditor)) option" where
  "processSHB marshal pe =
     (case andThen (slice (shb pe) 12 14) (\<lambda>b. andThen (theEndian pe) (\<lambda>endian.
           andThen (Uint16 endian b) (\<lambda>major.
           andThen (andThen (slice (shb pe) 14 16) (Uint16 endian)) (\<lambda>minor.
           andThen (andThen (slice (shb pe) 16 24) (Uint64 endian)) (\<lambda>sectionLen.
             Inr (endian, major, minor)))))) of
        Inl e \<Rightarrow> Some (Inl e)
      | Inr (endian, major, minor) \<Rightarrow>
          (case scanOptions endian (shb pe) (shbLen pe) 24 [] None of
             None \<Rightarrow> None
           | Some (Inl e) \<Rightarrow> Some (Inl e)
           | Some (Inr (options, firstComment)) \<Rightarrow>
               Some (rebuildSHB marshal pe endian major minor options firstComment)))"

text \<open>
  \<open>process\<close>: the octets to hand to the sink for the octets \<open>b\<close> written, and the editor
  after it. \<open>uint32(len(pe.shb))\<close> keeps the low 32 bits of the length.
\<close>

definition process ::
  "marshaller \<Rightarrow> StreamEditor \<Rightarrow> byte list \<Rightarrow> (failure + (byte list \<times> StreamEditor)) option" where
  "process marshal pe b =
     (if passThrough pe then Some (Inr (b, pe))
      else
        let pe1 = pe\<lparr>shb := shb pe @ b\<rparr>
        in case (if shbLen pe1 = 0 \<and> 12 \<le> length (shb pe1)
                 then shbLenEndianness pe1 else Inr (True, pe1)) of
             Inl e \<Rightarrow> Some (Inl e)
           | Inr (ok, pe2) \<Rightarrow>
               if \<not> ok
               then Some (Inr (shb pe2, pe2\<lparr>passThrough := True, shb := []\<rparr>))
               else if shbLen pe2 \<noteq> 0 \<and> shbLen pe2 \<le> word_of_nat (length (shb pe2))
               then processSHB marshal pe2
               else Some (Inr ([], pe2)))"

text \<open>
  \<open>Write\<close>. The sink is any state \<open>'s\<close> with its own \<open>Write\<close>, which returns an error or
  none and the sink after the call. The result is \<open>n\<close>, the error and both states.
\<close>

definition Write ::
  "marshaller \<Rightarrow> (byte list \<Rightarrow> 's \<Rightarrow> 'e option \<times> 's) \<Rightarrow> StreamEditor \<Rightarrow> 's \<Rightarrow> byte list
     \<Rightarrow> (failure + (int \<times> 'e option \<times> StreamEditor \<times> 's)) option" where
  "Write marshal sinkWrite pe sink b =
     (let n = int (length b)
      in case process marshal pe b of
           None \<Rightarrow> None
         | Some (Inl e) \<Rightarrow> Some (Inl e)
         | Some (Inr (b', pe')) \<Rightarrow>
             (case sinkWrite b' sink of
                (Some err, sink') \<Rightarrow> Some (Inr (n, Some err, pe', sink'))
              | (None, sink') \<Rightarrow> Some (Inr (n, None, pe', sink'))))"

section \<open>The target cache\<close>

text \<open>
  \<open>api.Targets\<close> is \<open>[]*Target\<close>: the cache and its callers share target descriptions
  by reference. A reference is an address into a store of targets, or nil; \<open>nextFree\<close> is
  the first address not yet allocated.
\<close>

type_synonym addr = nat
type_synonym ptr = "addr option"

record heap =
  cells :: "addr \<Rightarrow> Target"
  nextFree :: addr

text \<open>\<open>tshallow := *tcached; t = &tshallow\<close>: a new variable holding a copy.\<close>

definition alloc :: "heap \<Rightarrow> Target \<Rightarrow> addr \<times> heap" where
  "alloc h t = (nextFree h, h\<lparr>cells := (cells h)(nextFree h := t), nextFree := Suc (nextFree h)\<rparr>)"

record targetkey =
  prefix :: string
  name :: string
  nodename :: string

text \<open>
  \<open>TargetCache\<close>; a nil map has no keys, as the empty map. The mutex is taken and
  released inside every method, so that each method is one step.
\<close>

record TargetCache =
  ts :: "ptr list"
  index :: "targetkey \<rightharpoonup> ptr list"

definition emptyCache :: TargetCache where
  "emptyCache = \<lparr>ts = [], index = Map.empty\<rparr>"

definition IsEmpty :: "TargetCache \<Rightarrow> bool" where
  "IsEmpty tc = (length (ts tc) = 0)"

definition Targets :: "TargetCache \<Rightarrow> ptr list" where
  "Targets tc = ts tc"

text \<open>\<open>Pod\<close>: \<open>ts[0].Type\<close> reads the target that the first entry refers to.\<close>

definition Pod :: "heap \<Rightarrow> TargetCache \<Rightarrow> string \<Rightarrow> failure + (ptr \<times> bool)" where
  "Pod h tc name' =
     (case index tc \<lparr>prefix = [], name = name', nodename = []\<rparr> of
        Some ts' \<Rightarrow>
          if length ts' = 1
          then (case ts' ! 0 of
                  None \<Rightarrow> Inl NilDereference
                | Some a \<Rightarrow>
                    if Type (cells h a) = ''pod'' then Inr (ts' ! 0, True) else Inr (None, False))
          else Inr (None, False)
      | None \<Rightarrow> Inr (None, False))"

definition OnNode :: "TargetCache \<Rightarrow> string \<Rightarrow> string \<Rightarrow> string \<Rightarrow> ptr \<times> bool" where
  "OnNode tc nodename' prefix' name' =
     (case index tc \<lparr>prefix = prefix', name = name', nodename = nodename'\<rparr> of
        Some ts' \<Rightarrow> if length ts' = 1 then (ts' ! 0, True) else (None, False)
      | None \<Rightarrow> (None, False))"

text \<open>
  The loop of \<open>Set\<close> over the targets; \<open>m\<close> is the map \<open>tc.index\<close> as built so far.
  \<open>make(api.Targets, cap)\<close> is a slice of \<open>cap\<close> nil references, of which the first is
  then set.
\<close>

fun SetLoop :: "heap \<Rightarrow> ptr list \<Rightarrow> (targetkey \<rightharpoonup> ptr list) \<Rightarrow> failure + (targetkey \<rightharpoonup> ptr list)" where
  "SetLoop h [] m = Inr m"
| "SetLoop h (t # rest) m =
     (case t of
        None \<Rightarrow> Inl NilDereference
      | Some a \<Rightarrow>
          let k = \<lparr>prefix = Prefix (cells h a), name = Name (cells h a), nodename = []\<rparr>;
              cap = (if Type (cells h a) \<noteq> ''pod'' then 10 else 1);
              m1 = (case m k of
                          Some ttt \<Rightarrow> m(k \<mapsto> ttt @ [t])
                        | None \<Rightarrow> m(k \<mapsto> (replicate cap None)[0 := t]));
              k' = k\<lparr>nodename := NodeName (cells h a)\<rparr>;
              m2 = m1(k' \<mapsto> [t])
          in SetLoop h rest m2)"

definition Set :: "heap \<Rightarrow> TargetCache \<Rightarrow> ptr list \<Rightarrow> failure + TargetCache" where
  "Set h tc ts' =
     andThen (SetLoop h ts' Map.empty) (\<lambda>m. Inr (tc\<lparr>ts := ts', index := m\<rparr>))"

definition Clear :: "TargetCache \<Rightarrow> TargetCache" where
  "Clear tc = tc\<lparr>ts := []\<rparr>"



section \<open>Completing a target\<close>

text \<open>The three errors that \<open>CompleteTarget\<close> returns.\<close>

datatype error = NoTargetSpecified | NonExistingTarget | InvalidRouting

text \<open>\<open>strings.ContainsAny\<close> for characters of one octet.\<close>

definition ContainsAny :: "string \<Rightarrow> string \<Rightarrow> bool" where
  "ContainsAny s chars = list_ex (\<lambda>c. c \<in> set chars) s"

text \<open>
  \<open>CompleteTarget\<close>: the reference to return or the error, and the store after the
  call. The options are not looked at. A nil cache panics when it is asked.
\<close>

definition CompleteTarget ::
  "heap \<Rightarrow> ptr \<Rightarrow> 'opts \<Rightarrow> TargetCache option \<Rightarrow> failure + ((error + addr) \<times> heap)" where
  "CompleteTarget h t opts tc =
     (case t of
        None \<Rightarrow> Inr (Inl NoTargetSpecified, h)
      | Some a \<Rightarrow>
          andThen
            (if CaptureService (cells h a) = []
             then andThen
                    (case tc of
                       None \<Rightarrow> Inl NilDereference
                     | Some cache \<Rightarrow>
                         if Type (cells h a) = ''pod''
                         then Pod h cache (Name (cells h a))
                         else Inr (OnNode cache (NodeName (cells h a)) (Prefix (cells h a))
                                     (Name (cells h a))))
                    (\<lambda>(tcached, ok).
                       if \<not> ok then Inr (Inl NonExistingTarget, h)
                       else (case tcached of
                               None \<Rightarrow> Inl NilDereference
                             | Some c \<Rightarrow>
                                 (case alloc h (cells h c) of
                                    (tshallow, h') \<Rightarrow> Inr (Inr tshallow, h'))))
             else Inr (Inr a, h))
            (\<lambda>(r, h').
               case r of
                 Inl e \<Rightarrow> Inr (Inl e, h')
               | Inr a' \<Rightarrow>
                   if ContainsAny (CaptureService (cells h' a')) ''/?%''
                   then Inr (Inl InvalidRouting, h')
                   else Inr (Inr a', h')))"

text \<open>The lookup that \<open>CompleteTarget\<close> makes for the description at \<open>a\<close>.\<close>

definition cachedTarget :: "heap \<Rightarrow> TargetCache \<Rightarrow> addr \<Rightarrow> failure + (ptr \<times> bool)" where
  "cachedTarget h cache a =
     (if Type (cells h a) = ''pod''
      then Pod h cache (Name (cells h a))
      else Inr (OnNode cache (NodeName (cells h a)) (Prefix (cells h a)) (Name (cells h a))))"

section \<open>The websocket with a graceful close\<close>

text \<open>
  \<open>ReadingClientWebsocket\<close>: the flag \<open>Closing\<close>, the channel \<open>closed\<close> (here: whether
  it has been closed), and of the connection whether the transport is open and how many
  close messages were written to it.
\<close>

record ReadingClientWebsocket =
  Closing :: bool
  closed :: bool
  connOpen :: bool
  closeMessages :: nat

text \<open>
  One call of \<open>Close\<close> and one call of \<open>Read\<close> run in two goroutines. Each is at one of
  these places: \<open>Close\<close> before its locked section, at its \<open>select\<close>, in the timeout
  case that the \<open>select\<close> has chosen, or returned; \<open>Read\<close> inside \<open>ReadMessage\<close>, holding
  a close error before its locked section, or returned.
\<close>

datatype closePlace =
  CloseEntered | CloseSelect | CloseTimeout | CloseReturned | ClosePanicked failure

datatype readPlace =
  ReadMessage | ReadCloseError | ReadReturned | ReadPanicked failure

record session =
  ws :: ReadingClientWebsocket
  closeAt :: closePlace
  readAt :: readPlace
  timerFired :: bool

text \<open>\<open>New\<close>, and both calls at their start.\<close>

definition New :: ReadingClientWebsocket where
  "New = \<lparr>Closing = False, closed = False, connOpen = True, closeMessages = 0\<rparr>"

definition start :: session where
  "start = \<lparr>ws = New, closeAt = CloseEntered, readAt = ReadMessage, timerFired = False\<rparr>"

text \<open>\<open>close(ws.closed)\<close>: closing a closed channel panics.\<close>

definition closeChannel :: "ReadingClientWebsocket \<Rightarrow> failure + ReadingClientWebsocket" where
  "closeChannel w = (if closed w then Inl CloseOfClosedChannel else Inr (w\<lparr>closed := True\<rparr>))"

text \<open>
  \<open>if !ws.Closing { ws.Closing = true; ws.Conn.WriteMessage(CloseMessage, ...) }\<close>, in
  \<open>Close\<close> and in \<open>Read\<close>.
\<close>

definition markClosing :: "ReadingClientWebsocket \<Rightarrow> ReadingClientWebsocket" where
  "markClosing w =
     (if \<not> Closing w then w\<lparr>Closing := True, closeMessages := Suc (closeMessages w)\<rparr> else w)"

text \<open>\<open>ws.Conn.Close()\<close>\<close>

definition connClose :: "ReadingClientWebsocket \<Rightarrow> ReadingClientWebsocket" where
  "connClose w = w\<lparr>connOpen := False\<rparr>"

text \<open>
  The steps of the two goroutines and of their environment. A locked section is one
  step, since the mutex keeps the other locked section out; the timer case of \<open>Close\<close>
  runs outside the mutex. A \<open>select\<close> takes any case that is ready.
\<close>

datatype event =
    CloseLocked       \<comment> \<open>\<open>Close\<close>: the locked section\<close>
  | TimerFires        \<comment> \<open>the grace period of \<open>time.After\<close> is over\<close>
  | SelectTimeout     \<comment> \<open>\<open>Close\<close>: the \<open>select\<close> takes the timer case\<close>
  | SelectClosed      \<comment> \<open>\<open>Close\<close>: the \<open>select\<close> takes the case of the closed channel\<close>
  | ForceClose        \<comment> \<open>\<open>Close\<close>: \<open>ws.Conn.Close(); close(ws.closed)\<close> of the timer case\<close>
  | PeerCloses        \<comment> \<open>\<open>Read\<close>: \<open>ReadMessage\<close> returns the peer's close message as a close error\<close>
  | ReadLocked        \<comment> \<open>\<open>Read\<close>: the locked section, up to the return\<close>

text \<open>One step; \<open>None\<close> when the event cannot happen in the state.\<close>

definition step :: "event \<Rightarrow> session \<Rightarrow> session option" where
  "step ev s =
     (case ev of
        CloseLocked \<Rightarrow>
          if closeAt s = CloseEntered
          then Some (s\<lparr>ws := markClosing (ws s), closeAt := CloseSelect\<rparr>)
          else None
      | TimerFires \<Rightarrow>
          if closeAt s = CloseSelect \<and> \<not> timerFired s then Some (s\<lparr>timerFired := True\<rparr>)
          else None
      | SelectTimeout \<Rightarrow>
          if closeAt s = CloseSelect \<and> timerFired s then Some (s\<lparr>closeAt := CloseTimeout\<rparr>)
          else None
      | SelectClosed \<Rightarrow>
          if closeAt s = CloseSelect \<and> closed (ws s) then Some (s\<lparr>closeAt := CloseReturned\<rparr>)
          else None
      | ForceClose \<Rightarrow>
          if closeAt s = CloseTimeout
          then (case closeChannel (connClose (ws s)) of
                  Inl f \<Rightarrow> Some (s\<lparr>ws := connClose (ws s), closeAt := ClosePanicked f\<rparr>)
                | Inr w \<Rightarrow> Some (s\<lparr>ws := w, closeAt := CloseReturned\<rparr>))
          else None
      | PeerCloses \<Rightarrow>
          if readAt s = ReadMessage \<and> connOpen (ws s) then Some (s\<lparr>readAt := ReadCloseError\<rparr>)
          else None
      | ReadLocked \<Rightarrow>
          if readAt s = ReadCloseError
          then (case closeChannel (connClose (markClosing (ws s))) of
                  Inl f \<Rightarrow> Some (s\<lparr>ws := connClose (markClosing (ws s)),
                                    readAt := ReadPanicked f\<rparr>)
                | Inr w \<Rightarrow> Some (s\<lparr>ws := w, readAt := ReadReturned\<rparr>))
          else None)"

text \<open>A schedule: the events in the order in which they happen.\<close>

fun run :: "event list \<Rightarrow> session \<Rightarrow> session option" where
  "run [] s = Some s"
| "run (ev # evs) s = (case step ev s of None \<Rightarrow> None | Some s' \<Rightarrow> run evs s')"

text \<open>
  All events, and those that can happen in a state. A call that has returned or panicked
  takes no further step.
\<close>

definition events :: "event list" where
  "events =
     [CloseLocked, TimerFires, SelectTimeout, SelectClosed, ForceClose, PeerCloses, ReadLocked]"

definition enabled :: "session \<Rightarrow> event list" where
  "enabled s = filter (\<lambda>ev. step ev s \<noteq> None) events"

section \<open>Section header blocks on the wire\<close>

text \<open>
  The layout of a section header block, as \<open>processSHB\<close> reads and writes it: block
  type, total length, byte-order magic, major and minor version, section length, the
  octets of the options, and the total length again. The total length counts the 28
  octets of the fixed fields.
\<close>

definition shbBlock :: "ByteOrder \<Rightarrow> 16 word \<Rightarrow> 16 word \<Rightarrow> 64 word \<Rightarrow> byte list \<Rightarrow> byte list" where
  "shbBlock e major minor sectionLen optBytes =
     PutUint32 e 0x0a0d0d0a @ PutUint32 e (word_of_nat (28 + length optBytes))
       @ PutUint32 e 0x1a2b3c4d @ PutUint16 e major @ PutUint16 e minor
       @ PutUint64 e sectionLen @ optBytes @ PutUint32 e (word_of_nat (28 + length optBytes))"

definition encodedOptions :: "ByteOrder \<Rightarrow> Option list \<Rightarrow> byte list" where
  "encodedOptions e opts = concat (map (encoded e) opts)"

text \<open>The end-of-options mark, which a block may or may not have.\<close>

definition endOfOptions :: "bool \<Rightarrow> byte list" where
  "endOfOptions present = (if present then [0, 0, 0, 0] else [])"

text \<open>
  An option that the format can carry and that is not the end-of-options mark: the sum
  of 4 and the length of its value fits 16 bits.
\<close>

definition wellFormedOption :: "Option \<Rightarrow> bool" where
  "wellFormedOption opt =
     (length (Value opt) \<le> 65531 \<and> (Code opt \<noteq> OptEndofOpt \<or> Value opt \<noteq> []))"

text \<open>The YAML that the editor appends: nothing when the serialiser fails.\<close>

definition yamlOf :: "marshaller \<Rightarrow> StreamEditor \<Rightarrow> byte list" where
  "yamlOf marshal pe = (case marshal (containerInfo pe) of Some y \<Rightarrow> y | None \<Rightarrow> [])"

section \<open>Callers and example data\<close>

text \<open>\<open>bytes.Buffer.Write\<close>, the sink of the tests: it appends and never fails.\<close>

definition bufferWrite :: "byte list \<Rightarrow> byte list \<Rightarrow> unit option \<times> byte list" where
  "bufferWrite b buf = (None, buf @ b)"

text \<open>
  A stream that arrives in chunks: one \<open>Write\<close> per chunk, as the relay loop of
  \<open>StartCaptureStream\<close> does for as long as no \<open>Write\<close> returns an error.
\<close>

fun WriteAll ::
  "marshaller \<Rightarrow> (byte list \<Rightarrow> 's \<Rightarrow> 'e option \<times> 's) \<Rightarrow> StreamEditor \<Rightarrow> 's \<Rightarrow> byte list list
     \<Rightarrow> (failure + (StreamEditor \<times> 's)) option" where
  "WriteAll marshal sinkWrite pe sink [] = Some (Inr (pe, sink))"
| "WriteAll marshal sinkWrite pe sink (b # bs) =
     (case Write marshal sinkWrite pe sink b of
        None \<Rightarrow> None
      | Some (Inl e) \<Rightarrow> Some (Inl e)
      | Some (Inr (n, None, pe', sink')) \<Rightarrow> WriteAll marshal sinkWrite pe' sink' bs
      | Some (Inr (n, Some err, pe', sink')) \<Rightarrow> Some (Inr (pe', sink')))"

text \<open>
  Targets for the examples: a pod and a container of the same name on one node, two pods
  whose node name is empty, a partial description of the first pod, and a description
  whose capture service holds a slash.
\<close>

definition target :: "string \<Rightarrow> string \<Rightarrow> string \<Rightarrow> string \<Rightarrow> string \<Rightarrow> Target" where
  "target name' type' prefix' nodename' service =
     zeroTarget\<lparr>Name := name', Type := type', Prefix := prefix', NodeName := nodename',
       CaptureService := service\<rparr>"

definition exampleHeap :: heap where
  "exampleHeap =
     \<lparr>cells = (\<lambda>a.
         if a = 0 then target ''web'' ''pod'' [] ''node1'' ''packetflix-1''
         else if a = 1 then target ''web'' ''docker'' ''kind:'' ''node1'' ''packetflix-1''
         else if a = 2 then target ''db'' ''pod'' [] [] ''packetflix-1''
         else if a = 3 then target ''db'' ''pod'' [] [] ''packetflix-2''
         else if a = 4 then target ''web'' ''pod'' [] [] []
         else if a = 5 then target ''web'' ''pod'' [] ''node1'' ''packet/flix''
         else zeroTarget),
      nextFree = 6\<rparr>"

text \<open>The cache that \<open>Set\<close> builds from the first two of these targets.\<close>

definition exampleCache :: TargetCache where
  "exampleCache =
     \<lparr>ts = [Some 0, Some 1],
      index = [\<lparr>prefix = [], name = ''web'', nodename = []\<rparr> \<mapsto> [Some 0],
             \<lparr>prefix = [], name = ''web'', nodename = ''node1''\<rparr> \<mapsto> [Some 0],
             \<lparr>prefix = ''kind:'', name = ''web'', nodename = []\<rparr>
               \<mapsto> (replicate 10 None)[0 := Some 1],
             \<lparr>prefix = ''kind:'', name = ''web'', nodename = ''node1''\<rparr> \<mapsto> [Some 1]]\<rparr>"

text \<open>The store after a copy of the first target has been allocated.\<close>

definition exampleHeapCopied :: heap where
  "exampleHeapCopied =
     exampleHeap\<lparr>cells := (cells exampleHeap)(6 := cells exampleHeap 0), nextFree := 7\<rparr>"

text \<open>
  The YAML of the tests for the zero target, a serialiser that returns it, and a section
  header block whose comment holds a text, the target marker with nothing after it, and
  a YAML document "B" after an end marker.
\<close>

definition exampleYaml :: "byte list" where
  "exampleYaml = string_bytes (''container-name: \"\"'' @ [CHR 0x0A]
     @ ''container-type: \"\"'' @ [CHR 0x0A] @ ''node-name: \"\"'' @ [CHR 0x0A])"

definition exampleMarshal :: marshaller where
  "exampleMarshal ci = Some exampleYaml"

definition staleComment :: "byte list" where
  "staleComment = string_bytes (''A'' @ [CHR 0x0A]) @ targetmarker
     @ string_bytes ([CHR 0x0A] @ ''---'' @ [CHR 0x0A] @ ''B'')"

definition staleBlock :: "byte list" where
  "staleBlock =
     [0x0a, 0x0d, 0x0d, 0x0a, 0x00, 0x00, 0x00, 0x4c, 0x1a, 0x2b, 0x3c, 0x4d,
      0x00, 0x01, 0x00, 0x00, 0xff, 0xff, 0xff, 0xff, 0xff, 0xff, 0xff, 0xff,
      0x00, 0x01, 0x00, 0x29] @ staleComment @ [0x00, 0x00, 0x00,
      0x00, 0x00, 0x00, 0x4c]"

text \<open>
  The first 24 octets of a big-endian section header block, with the block type and the
  byte-order magic of the format, version 1.0 and an unknown section length, whose block
  total length says 1.
\<close>

definition shortLengthHeader :: "byte list" where
  "shortLengthHeader =
     [0x0a, 0x0d, 0x0d, 0x0a, 0x00, 0x00, 0x00, 0x01, 0x1a, 0x2b, 0x3c, 0x4d,
      0x00, 0x01, 0x00, 0x00, 0xff, 0xff, 0xff, 0xff, 0xff, 0xff, 0xff, 0xff]"

text \<open>The number of places at which \<open>p\<close> occurs in \<open>s\<close>.\<close>

fun occurrences :: "'a list \<Rightarrow> 'a list \<Rightarrow> nat" where
  "occurrences p [] = (if p = [] then 1 else 0)"
| "occurrences p (c # cs) =
     (if take (length p) (c # cs) = p then 1 else 0) + occurrences p cs"

section \<open>Option round trip\<close>

lemma andThen_Inr [simp]: "andThen (Inr x) f = f x"
  by (simp add: andThen_def)

lemma andThen_Inl [simp]: "andThen (Inl e) f = Inl e"
  by (simp add: andThen_def)

lemma and3_word16: "unat (w AND 3 :: 16 word) = unat w mod 4"
proof -
  have "(3::16 word) = mask 2" by (simp add: mask_eq_exp_minus_1)
  then have "w AND 3 = take_bit 2 w" by (simp add: take_bit_eq_mask)
  then show ?thesis by (simp add: unsigned_take_bit_eq take_bit_eq_mod unat_mod)
qed

lemma and3_nat: "(n::nat) AND 3 = n mod 4"
proof -
  have "(3::nat) = mask 2" by (simp add: mask_eq_exp_minus_1)
  then have "n AND 3 = take_bit 2 n" by (simp add: take_bit_eq_mask)
  then show ?thesis by (simp add: take_bit_eq_mod)
qed

lemma length_PutUint16 [simp]: "length (PutUint16 e v) = 2"
  by (cases e) (simp_all add: PutUint16_def)

lemma length_PutUint32 [simp]: "length (PutUint32 e v) = 4"
  by (cases e) (simp_all add: PutUint32_def)

lemma word16_join: "(ucast (ucast v :: 8 word) :: 16 word) OR push_bit 8 (ucast (ucast (drop_bit 8 v) :: 8 word)) = (v::16 word)"
  by (rule bit_word_eqI) (auto simp: bit_simps)

lemma word32_join: "(ucast (ucast v :: 8 word) :: 32 word) OR push_bit 8 (ucast (ucast (drop_bit 8 v) :: 8 word))
   OR push_bit 16 (ucast (ucast (drop_bit 16 v) :: 8 word)) OR push_bit 24 (ucast (ucast (drop_bit 24 v) :: 8 word)) = (v::32 word)"
proof (rule bit_word_eqI)
  fix n :: nat
  assume "n < LENGTH(32)"
  then have n: "n < 32" by simp
  consider "n < 8" | "8 \<le> n \<and> n < 16" | "16 \<le> n \<and> n < 24" | "24 \<le> n \<and> n < 32"
    using n by arith
  then show "bit (ucast (ucast v :: 8 word) OR push_bit 8 (ucast (ucast (drop_bit 8 v) :: 8 word))
      OR push_bit 16 (ucast (ucast (drop_bit 16 v) :: 8 word))
      OR push_bit 24 (ucast (ucast (drop_bit 24 v) :: 8 word)) :: 32 word) n = bit v n"
  proof cases
    case 1 then show ?thesis by (auto simp: bit_simps)
  next
    case 2 then show ?thesis by (auto simp: bit_simps)
  next
    case 3 then show ?thesis by (auto simp: bit_simps)
  next
    case 4 then show ?thesis by (auto simp: bit_simps)
  qed
qed

lemma Uint16_PutUint16: "Uint16 e (PutUint16 e v @ rest) = Inr v"
  by (cases e) (simp_all add: Uint16_def PutUint16_def word16_join nth_append)

lemma Uint32_PutUint32: "Uint32 e (PutUint32 e v @ rest) = Inr v"
  by (cases e) (simp_all add: Uint32_def PutUint32_def word32_join nth_append)



lemma unat_len16: "n \<le> 65531 \<Longrightarrow> unat (4 + (word_of_nat n :: 16 word)) = 4 + n"
  by (simp add: unat_word_ariths unat_of_nat mod_simps)

lemma unat_of_nat16: "n \<le> 65531 \<Longrightarrow> unat (word_of_nat n :: 16 word) = n"
  by (simp add: unat_of_nat)

lemma len16_and3: "n \<le> 65531 \<Longrightarrow> unat ((word_of_nat n :: 16 word) AND 3) = n mod 4"
  by (simp add: and3_word16 unat_of_nat16)

lemma len16_and3_zero: "n \<le> 65531 \<Longrightarrow> ((word_of_nat n :: 16 word) AND 3 = 0) = (n mod 4 = 0)"
  using len16_and3 [of n] unat_eq_0 [of "(word_of_nat n :: 16 word) AND 3"] by simp

lemma len16_zero: "n \<le> 65531 \<Longrightarrow> ((word_of_nat n :: 16 word) = 0) = (n = 0)"
  using unat_of_nat16 [of n] unat_eq_0 [of "(word_of_nat n :: 16 word)"] by simp

lemma pad_slice: "k = 1 \<or> k = 2 \<or> k = 3 \<Longrightarrow> slice [0, 0, 0 :: byte] 0 (4 - k) = Inr (replicate (4 - k) 0)"
  by (elim disjE) (simp_all add: slice_def numeral_3_eq_3 numeral_2_eq_2)

lemma pad_slice_mod: "(n::nat) mod 4 \<noteq> 0 \<Longrightarrow> slice [0, 0, 0 :: byte] 0 (4 - n mod 4) = Inr (replicate (4 - n mod 4) 0)"
  by (rule pad_slice) arith

lemma store_code: "store (replicate (4 + n) 0) 0 2 (PutUint16 e c) = Inr (PutUint16 e c @ 0 # 0 # replicate n 0)"
  by (simp add: store_def)

lemma store_len: "store (PutUint16 e c @ 0 # 0 # replicate n 0) 2 4 (PutUint16 e d)
      = Inr (PutUint16 e c @ PutUint16 e d @ replicate n 0)"
  by (simp add: store_def)

lemma copy_value: "length v = n \<Longrightarrow> copyAt (PutUint16 e c @ PutUint16 e d @ replicate n 0) 4 v
      = Inr (PutUint16 e c @ PutUint16 e d @ v)"
  by (simp add: copyAt_def)

lemma Bytes_Some:
  assumes "length (Value opt) \<le> 65531"
  shows "Bytes (Some opt) e = Inr (encoded e opt)"
  unfolding Bytes_def encoded_def
  using assms
  by (simp add: Let_def unat_len16 store_code store_len copy_value len16_and3_zero len16_and3
      pad_slice_mod padding_def)

lemma length_encoded: "length (encoded e opt) = roundUp4 (4 + length (Value opt))"
  unfolding encoded_def padding_def roundUp4_def by (simp add: mod_simps) presburger

lemma NewOption_encoded:
  assumes "length (Value opt) \<le> 65531" and "Code opt \<noteq> 0 \<or> Value opt \<noteq> []"
  shows "NewOption (encoded e opt @ rest) e = Inr (Some opt, length (encoded e opt))"
proof -
  let ?n = "length (Value opt)"
  let ?len = "word_of_nat ?n :: 16 word"
  have c: "Uint16 e (encoded e opt @ rest) = Inr (Code opt)"
    by (simp add: encoded_def Uint16_PutUint16)
  have s: "slice (encoded e opt @ rest) 2 4 = Inr (PutUint16 e ?len)"
    by (simp add: encoded_def slice_def)
  have l: "Uint16 e (PutUint16 e ?len) = Inr ?len"
    using Uint16_PutUint16 [of e ?len "[]"] by simp
  have v: "slice (encoded e opt @ rest) 4 (4 + ?n) = Inr (Value opt)"
    by (simp add: encoded_def slice_def)
  have nz: "Code opt \<noteq> OptEndofOpt \<or> ?len \<noteq> 0"
    using assms by (auto simp: OptEndofOpt_def len16_zero)
  show ?thesis
    unfolding NewOption_def
    using assms(1) nz by (simp add: c s l v Let_def unat_len16 unat_of_nat16 and3_nat length_encoded roundUp4_def)
qed

lemma NewOption_sentinel: "NewOption ([0, 0, 0, 0] @ rest) e = Inr (None, 4)"
  by (cases e) (simp_all add: NewOption_def Uint16_def slice_def OptEndofOpt_def Let_def)

lemma replicate_two: "replicate 2 x = [x, x]"
  by (simp add: numeral_2_eq_2)

lemma replicate_three: "replicate 3 x = [x, x, x]"
  by (simp add: numeral_3_eq_3)

lemma Bytes_wraps:
  "Bytes (Some \<lparr>Code = c, Value = replicate 65536 0\<rparr>) e
     = Inr (PutUint16 e c @ PutUint16 e 0)"
  by (cases e) (simp_all add: Bytes_def Let_def store_def copyAt_def PutUint16_def)

lemma Bytes_too_long:
  "Bytes (Some \<lparr>Code = c, Value = replicate 65532 0\<rparr>) e = Inl OutOfRange"
  by (simp add: Bytes_def Let_def store_def)

text \<open>
  C4, as the code has it. For every option whose value is at most 65531 octets long and
  which is not the pair (code 0, empty value), and for both byte orders, \<open>Bytes\<close> returns
  an encoding whose length is 4 plus the length of the value, rounded up to the next
  multiple of 4, and \<open>NewOption\<close> on that encoding (whatever follows it) returns the
  option itself and that length as the skip. The pair (code 0, empty value) encodes to
  the end-of-options mark, and decoding the mark yields no option and a skip of 4.
\<close>

theorem option_roundtrip:
  assumes "length (Value opt) \<le> 65531"
    and "Code opt \<noteq> OptEndofOpt \<or> Value opt \<noteq> []"
  shows "(\<exists>bs. Bytes (Some opt) e = Inr bs
            \<and> length bs = roundUp4 (4 + length (Value opt))
            \<and> NewOption (bs @ rest) e = Inr (Some opt, length bs))
         \<and> Bytes (Some \<lparr>Code = OptEndofOpt, Value = []\<rparr>) e = Inr [0, 0, 0, 0]
         \<and> NewOption ([0, 0, 0, 0] @ rest) e = Inr (None, 4)"
proof -
  have "Bytes (Some opt) e = Inr (encoded e opt)"
    using assms(1) by (rule Bytes_Some)
  moreover have "NewOption (encoded e opt @ rest) e = Inr (Some opt, length (encoded e opt))"
    using assms by (simp add: NewOption_encoded OptEndofOpt_def)
  moreover have "Bytes (Some \<lparr>Code = OptEndofOpt, Value = []\<rparr>) e = Inr [0, 0, 0, 0]"
    by (cases e) (simp_all add: Bytes_Some encoded_def PutUint16_def padding_def OptEndofOpt_def)
  moreover have "NewOption ([0, 0, 0, 0] @ rest) e = Inr (None, 4)"
    by (rule NewOption_sentinel)
  ultimately show ?thesis
    by (simp add: length_encoded)
qed

theorem option_roundtrip_witness:
  "Bytes (Some \<lparr>Code = 42, Value = [71, 111]\<rparr>) BigEndian = Inr [0, 42, 0, 2, 71, 111, 0, 0]
   \<and> NewOption [0, 42, 0, 2, 71, 111, 0, 0] BigEndian
       = Inr (Some \<lparr>Code = 42, Value = [71, 111]\<rparr>, 8)"
proof -
  have b: "Bytes (Some \<lparr>Code = 42, Value = [71, 111]\<rparr>) BigEndian
      = Inr [0, 42, 0, 2, 71, 111, 0, 0]"
    by (simp add: Bytes_Some encoded_def PutUint16_def padding_def replicate_two)
  show ?thesis
    using option_roundtrip [of "\<lparr>Code = 42, Value = [71, 111]\<rparr>" BigEndian "[]"] b
    by (simp add: OptEndofOpt_def)
qed

theorem option_roundtrip_counterexample:
  "Bytes (Some \<lparr>Code = 0, Value = []\<rparr>) BigEndian = Inr [0, 0, 0, 0]
   \<and> NewOption [0, 0, 0, 0] BigEndian = Inr (None, 4)"
proof -
  have "Bytes (Some \<lparr>Code = 0, Value = []\<rparr>) BigEndian = Inr [0, 0, 0, 0]"
    by (simp add: Bytes_Some encoded_def PutUint16_def padding_def)
  moreover have "NewOption [0, 0, 0, 0] BigEndian = Inr (None, 4)"
    using NewOption_sentinel [of "[]" BigEndian] by simp
  ultimately show ?thesis by simp
qed

section \<open>The editor on a write\<close>

lemma process_passThrough: "passThrough pe \<Longrightarrow> process marshal pe b = Some (Inr (b, pe))"
  by (simp add: process_def)

lemma process_buffering:
  assumes "\<not> passThrough pe" and "shbLen pe = 0" and "length (shb pe @ b) < 12"
  shows "process marshal pe b = Some (Inr ([], pe\<lparr>shb := shb pe @ b\<rparr>))"
  using assms by (simp add: process_def Let_def)

lemma shbLenEndianness_bad_magic:
  assumes "12 \<le> length (shb pe)" and "take 4 (shb pe) \<noteq> [0x0a, 0x0d, 0x0d, 0x0a]"
  shows "shbLenEndianness pe = Inr (False, pe)"
  using assms by (simp add: shbLenEndianness_def slice_def)

lemma process_bad_magic:
  assumes "\<not> passThrough pe" and "shbLen pe = 0" and "12 \<le> length (shb pe @ b)"
    and "take 4 (shb pe @ b) \<noteq> [0x0a, 0x0d, 0x0d, 0x0a]"
  shows "process marshal pe b = Some (Inr (shb pe @ b, pe\<lparr>passThrough := True, shb := []\<rparr>))"
proof -
  have "shbLenEndianness (pe\<lparr>shb := shb pe @ b\<rparr>) = Inr (False, pe\<lparr>shb := shb pe @ b\<rparr>)"
    using assms(3,4) by (intro shbLenEndianness_bad_magic) simp_all
  then show ?thesis
    using assms(1,2,3) by (simp add: process_def Let_def)
qed

text \<open>
  A call of \<open>Write\<close> in which \<open>process\<close> returns reports the length of the octets it was
  given, with the error of the sink if there is one; and a call that returns is such a
  call.
\<close>

lemma Write_of_process:
  "process marshal pe b = Some (Inr (out, pe')) \<Longrightarrow>
   Write marshal sinkWrite pe sink b
     = Some (Inr (int (length b), fst (sinkWrite out sink), pe', snd (sinkWrite out sink)))"
  by (cases "sinkWrite out sink"; cases "fst (sinkWrite out sink)") (simp_all add: Write_def)

lemma Write_returns:
  assumes "Write marshal sinkWrite pe sink b = Some (Inr (n, err, pe', sink'))"
  shows "n = int (length b) \<and> (\<exists>out. process marshal pe b = Some (Inr (out, pe')) \<and> sinkWrite out sink = (err, sink'))"
  using assms
  by (auto simp: Write_def Let_def split: option.splits sum.splits prod.splits)

text \<open>
  The block total length is never compared with the 28 octets that the fixed fields of a
  block take. With a total length of 1 the bound \<open>pe.shbLen-4\<close> of the loop over the
  options wraps around to \<open>0xfffffffd\<close>, the loop is entered at offset 24, and
  \<open>NewOption\<close> reads the code of an option from the empty slice \<open>pe.shb[24:]\<close>.
\<close>

lemma scanOptions_short_length:
  "scanOptions BigEndian shortLengthHeader 1 24 [] None = Some (Inl OutOfRange)"
  by (subst scanOptions.simps)
     (simp add: shortLengthHeader_def sliceFrom_def slice_def NewOption_def Uint16_def)

lemma process_short_length:
  "process marshal (NewStreamEditor t f p) shortLengthHeader = Some (Inl OutOfRange)"
  using scanOptions_short_length
  by (simp add: process_def NewStreamEditor_def shbLenEndianness_def slice_def Uint32_def
      processSHB_def theEndian_def Uint16_def Uint64_def Let_def shortLengthHeader_def)

text \<open>
  C10 fails on this input. A fresh editor, with any target, capture filter and sink, is
  written the 24 octets of \<open>shortLengthHeader\<close> in one call: \<open>Write\<close> panics inside
  \<open>process\<close> with an index out of range and reports no count at all, where the claim has
  it return the length of the octets written.
\<close>

theorem Write_panics_on_short_length:
  "Write marshal sinkWrite (NewStreamEditor t f p) sink shortLengthHeader = Some (Inl OutOfRange)"
  by (simp add: Write_def process_short_length)

lemma bufferWrite_simps [simp]:
  "fst (bufferWrite b buf) = None" "snd (bufferWrite b buf) = buf @ b"
  by (simp_all add: bufferWrite_def)

lemma WriteAll_passThrough:
  "passThrough pe \<Longrightarrow>
   WriteAll marshal bufferWrite pe buf chunks = Some (Inr (pe, buf @ concat chunks))"
  by (induction chunks arbitrary: buf)
     (simp_all add: Write_of_process process_passThrough)

lemma WriteAll_bad_magic:
  assumes "\<not> passThrough pe" and "shbLen pe = 0" and "length (shb pe) < 12"
    and "12 \<le> length (shb pe @ concat chunks)"
    and "take 4 (shb pe @ concat chunks) \<noteq> [0x0a, 0x0d, 0x0d, 0x0a]"
  shows "WriteAll marshal bufferWrite pe buf chunks
     = Some (Inr (pe\<lparr>passThrough := True, shb := []\<rparr>, buf @ shb pe @ concat chunks))"
  using assms
proof (induction chunks arbitrary: pe buf)
  case Nil
  then show ?case by simp
next
  case (Cons b bs)
  show ?case
  proof (cases "12 \<le> length (shb pe @ b)")
    case True
    have eq: "take 4 (shb pe @ concat (b # bs)) = take 4 (shb pe @ b)"
      using True by simp
    have bad: "take 4 (shb pe @ b) \<noteq> [0x0a, 0x0d, 0x0d, 0x0a]"
      using Cons.prems(5) unfolding eq .
    have p: "process marshal pe b = Some (Inr (shb pe @ b, pe\<lparr>passThrough := True, shb := []\<rparr>))"
      using Cons.prems(1,2) True bad by (rule process_bad_magic)
    show ?thesis
      by (simp add: Write_of_process [OF p] WriteAll_passThrough)
  next
    case False
    then have p: "process marshal pe b = Some (Inr ([], pe\<lparr>shb := shb pe @ b\<rparr>))"
      using Cons.prems(1,2) by (intro process_buffering) simp_all
    have ih: "WriteAll marshal bufferWrite (pe\<lparr>shb := shb pe @ b\<rparr>) buf bs
        = Some (Inr (pe\<lparr>shb := shb pe @ b\<rparr>\<lparr>passThrough := True, shb := []\<rparr>,
            buf @ shb (pe\<lparr>shb := shb pe @ b\<rparr>) @ concat bs))"
      using Cons.prems False by (intro Cons.IH) simp_all
    show ?thesis
      by (simp add: Write_of_process [OF p] ih)
  qed
qed

text \<open>
  C3. A stream whose first 4 octets are not the block type of a section header block is
  never edited. As soon as 12 octets are buffered, \<open>process\<close> hands all of them to the
  sink as they are and switches to pass-through mode, where every later \<open>Write\<close> is
  handed on octet for octet: written in any chunks to a fresh editor, a stream of at
  least 12 octets arrives in the sink unchanged, and so does everything written after it.
\<close>

theorem bad_magic_passes_through:
  assumes "take 4 (concat chunks) \<noteq> [0x0a, 0x0d, 0x0d, 0x0a]"
    and "12 \<le> length (concat chunks)"
  shows "let pe' = (NewStreamEditor t f p)\<lparr>passThrough := True, shb := []\<rparr>
         in WriteAll marshal bufferWrite (NewStreamEditor t f p) [] chunks
              = Some (Inr (pe', concat chunks))
            \<and> (\<forall>b. process marshal pe' b = Some (Inr (b, pe')))
            \<and> (\<forall>later. WriteAll marshal bufferWrite pe' (concat chunks) later
                  = Some (Inr (pe', concat chunks @ concat later)))
            \<and> (\<forall>pe b. \<not> passThrough pe \<and> shbLen pe = 0 \<and> 12 \<le> length (shb pe @ b)
                   \<and> take 4 (shb pe @ b) \<noteq> [0x0a, 0x0d, 0x0d, 0x0a]
                 \<longrightarrow> process marshal pe b
                     = Some (Inr (shb pe @ b, pe\<lparr>passThrough := True, shb := []\<rparr>)))"
proof -
  let ?pe = "NewStreamEditor t f p"
  let ?pe' = "?pe\<lparr>passThrough := True, shb := []\<rparr>"
  have "WriteAll marshal bufferWrite ?pe [] chunks
      = Some (Inr (?pe', [] @ shb ?pe @ concat chunks))"
    using assms by (intro WriteAll_bad_magic) (simp_all add: NewStreamEditor_def)
  then have "WriteAll marshal bufferWrite ?pe [] chunks = Some (Inr (?pe', concat chunks))"
    by (simp add: NewStreamEditor_def)
  moreover have "passThrough ?pe'" by simp
  ultimately show ?thesis
    unfolding Let_def
    using process_passThrough [of ?pe' marshal] WriteAll_passThrough [of ?pe' marshal]
      process_bad_magic [of _ _ marshal]
    by blast
qed

text \<open>Thirteen octets that do not start a section header block, written in two chunks.\<close>

theorem bad_magic_passes_through_witness:
  "WriteAll (\<lambda>ci. None) bufferWrite (NewStreamEditor None [] False) []
       [[1, 2, 3, 4, 5], [6, 7, 8, 9, 10, 11, 12, 13]]
     = Some (Inr ((NewStreamEditor None [] False)\<lparr>passThrough := True, shb := []\<rparr>,
         [1, 2, 3, 4, 5, 6, 7, 8, 9, 10, 11, 12, 13]))"
proof -
  have "take 4 (concat [[1, 2, 3, 4, 5], [6, 7, 8, 9, 10, 11, 12, 13 :: byte]])
      \<noteq> [0x0a, 0x0d, 0x0d, 0x0a]"
    by simp
  moreover have "12 \<le> length (concat [[1, 2, 3, 4, 5], [6, 7, 8, 9, 10, 11, 12, 13 :: byte]])"
    by simp
  ultimately have "WriteAll (\<lambda>ci. None) bufferWrite (NewStreamEditor None [] False) []
       [[1, 2, 3, 4, 5], [6, 7, 8, 9, 10, 11, 12, 13]]
     = Some (Inr ((NewStreamEditor None [] False)\<lparr>passThrough := True, shb := []\<rparr>,
         concat [[1, 2, 3, 4, 5], [6, 7, 8, 9, 10, 11, 12, 13]]))"
    using bad_magic_passes_through
      [where chunks = "[[1, 2, 3, 4, 5], [6, 7, 8, 9, 10, 11, 12, 13]]"
         and marshal = "\<lambda>ci. None" and t = None and f = "[]" and p = False]
    unfolding Let_def by blast
  then show ?thesis by simp
qed

section \<open>Rewriting a section header block without comment\<close>

lemma unat_of_nat32: "n < 4294967296 \<Longrightarrow> unat (word_of_nat n :: 32 word) = n"
  by (simp add: unat_of_nat)

lemma of_nat32_minus4:
  assumes "4 \<le> L"
  shows "(word_of_nat L :: 32 word) - 4 = word_of_nat (L - 4)"
proof -
  have "(word_of_nat (L - 4) :: 32 word) + 4 = word_of_nat (L - 4 + 4)"
    by simp
  also have "\<dots> = word_of_nat L"
    using assms by simp
  finally have "(word_of_nat (L - 4) :: 32 word) + 4 = word_of_nat L" .
  then show ?thesis
    by (metis add_diff_cancel_right')
qed

lemma offset_less:
  assumes "off < 4294967296" and "L < 4294967296" and "4 \<le> L"
  shows "((word_of_nat off :: 32 word) < word_of_nat L - 4) = (off < L - 4)"
proof -
  have a: "unat (word_of_nat off :: 32 word) = off"
    using assms(1) by (rule unat_of_nat32)
  have "L - 4 < 4294967296"
    using assms(2) by arith
  then have b: "unat (word_of_nat (L - 4) :: 32 word) = L - 4"
    by (rule unat_of_nat32)
  have "((word_of_nat off :: 32 word) < word_of_nat L - 4)
      = ((word_of_nat off :: 32 word) < word_of_nat (L - 4))"
    by (simp only: of_nat32_minus4 [OF assms(3)])
  also have "\<dots> = (unat (word_of_nat off :: 32 word) < unat (word_of_nat (L - 4) :: 32 word))"
    by (rule word_less_nat_alt)
  also have "\<dots> = (off < L - 4)"
    by (simp only: a b)
  finally show ?thesis .
qed

lemma length_encoded_ge4: "4 \<le> length (encoded e opt)"
  by (simp add: encoded_def)

lemma sliceFrom_drop: "off \<le> length buf \<Longrightarrow> sliceFrom buf off = Inr (drop off buf)"
  by (simp add: sliceFrom_def slice_def)

lemma scanOptions_stop:
  assumes "\<not> offset < len - 4"
  shows "scanOptions e buf len offset options fc = Some (Inr (options, fc))"
  by (subst scanOptions.simps) (simp add: assms)

lemma scanOptions_sentinel:
  assumes "offset < len - 4" and "sliceFrom buf (unat offset) = Inr buff"
    and "NewOption buff e = Inr (None, skip)"
  shows "scanOptions e buf len offset options fc = Some (Inr (options, fc))"
  by (subst scanOptions.simps) (simp add: assms)

lemma scanOptions_step:
  assumes "offset < len - 4" and "sliceFrom buf (unat offset) = Inr buff"
    and "NewOption buff e = Inr (Some r, skip)"
  shows "scanOptions e buf len offset options fc =
     (if Code r = OptComment \<and> fc = None
      then scanOptions e buf len (offset + word_of_nat skip) options (Some r)
      else scanOptions e buf len (offset + word_of_nat skip) (options @ [r]) fc)"
  by (subst scanOptions.simps) (simp add: assms)

lemma scanOptions_encoded:
  assumes "\<forall>opt \<in> set rs. wellFormedOption opt"
    and "fc \<noteq> None \<or> (\<forall>opt \<in> set rs. Code opt \<noteq> OptComment)"
    and "drop off buf = encodedOptions e rs @ endOfOptions eoo @ tail"
    and "off \<le> length buf"
    and "off + length (encodedOptions e rs) + length (endOfOptions eoo) + 4 = L"
    and "L < 4294967296"
  shows "scanOptions e buf (word_of_nat L) (word_of_nat off) options fc
     = Some (Inr (options @ rs, fc))"
  using assms
proof (induction rs arbitrary: off options)
  case Nil
  have off: "unat (word_of_nat off :: 32 word) = off"
    using Nil.prems(5,6) by (intro unat_of_nat32) simp
  have sl: "sliceFrom buf (unat (word_of_nat off :: 32 word)) = Inr (drop off buf)"
    unfolding off using Nil.prems(4) by (rule sliceFrom_drop)
  show ?case
  proof (cases eoo)
    case True
    then have lt: "(word_of_nat off :: 32 word) < word_of_nat L - 4"
      using Nil.prems by (subst offset_less) (simp_all add: endOfOptions_def encodedOptions_def)
    have "NewOption (drop off buf) e = Inr (None, 4)"
      using Nil.prems(3) True NewOption_sentinel [of tail e]
      by (simp add: endOfOptions_def encodedOptions_def)
    then show ?thesis
      using scanOptions_sentinel [OF lt sl] by simp
  next
    case False
    then have "\<not> (word_of_nat off :: 32 word) < word_of_nat L - 4"
      using Nil.prems by (subst offset_less) (simp_all add: endOfOptions_def encodedOptions_def)
    then show ?thesis
      using scanOptions_stop by simp
  qed
next
  case (Cons r rs)
  let ?n = "length (encoded e r)"
  have wf: "length (Value r) \<le> 65531" "Code r \<noteq> 0 \<or> Value r \<noteq> []"
    using Cons.prems(1) by (auto simp: wellFormedOption_def OptEndofOpt_def)
  have d: "drop off buf = encoded e r @ (encodedOptions e rs @ endOfOptions eoo @ tail)"
    using Cons.prems(3) by (simp add: encodedOptions_def)
  have n: "NewOption (drop off buf) e = Inr (Some r, ?n)"
    unfolding d using wf by (rule NewOption_encoded)
  have len: "off + ?n + length (encodedOptions e rs) + length (endOfOptions eoo) + 4 = L"
    using Cons.prems(5) by (simp add: encodedOptions_def)
  have lt: "(word_of_nat off :: 32 word) < word_of_nat L - 4"
    using len Cons.prems(6) length_encoded_ge4 [of e r] by (subst offset_less) simp_all
  have d': "drop (off + ?n) buf = encodedOptions e rs @ endOfOptions eoo @ tail"
  proof -
    have "drop (off + ?n) buf = drop ?n (drop off buf)"
      by (simp add: add.commute)
    then show ?thesis
      unfolding d by simp
  qed
  have le': "off + ?n \<le> length buf"
  proof -
    have "length (drop off buf) \<ge> ?n" unfolding d by simp
    then show ?thesis using Cons.prems(4) by simp
  qed
  have wf_rs: "\<forall>opt \<in> set rs. wellFormedOption opt"
    using Cons.prems(1) by simp
  have nc: "fc \<noteq> None \<or> (\<forall>opt \<in> set rs. Code opt \<noteq> OptComment)"
    using Cons.prems(2) by auto
  have step: "scanOptions e buf (word_of_nat L) (word_of_nat (off + ?n)) options' fc
     = Some (Inr (options' @ rs, fc))" for options'
    by (rule Cons.IH [OF wf_rs nc d' le' len Cons.prems(6)])
  have off: "unat (word_of_nat off :: 32 word) = off"
    using len Cons.prems(6) by (intro unat_of_nat32) simp
  have sl: "sliceFrom buf (unat (word_of_nat off :: 32 word)) = Inr (drop off buf)"
    unfolding off using Cons.prems(4) by (rule sliceFrom_drop)
  have c: "\<not> (Code r = OptComment \<and> fc = None)"
    using Cons.prems(2) by auto
  have "scanOptions e buf (word_of_nat L) (word_of_nat off) options fc
      = scanOptions e buf (word_of_nat L) (word_of_nat off + word_of_nat ?n) (options @ [r]) fc"
    unfolding scanOptions_step [OF lt sl n] using c by (rule if_not_P)
  also have "word_of_nat off + word_of_nat ?n = (word_of_nat (off + ?n) :: 32 word)"
    by simp
  also have "scanOptions e buf (word_of_nat L) (word_of_nat (off + ?n)) (options @ [r]) fc
      = Some (Inr ((options @ [r]) @ rs, fc))"
    by (rule step)
  finally show ?case by simp
qed


lemma length_PutUint64 [simp]: "length (PutUint64 e v) = 8"
  by (cases e) (simp_all add: PutUint64_def)

lemma encodeOptions_encoded:
  assumes "\<forall>opt \<in> set opts. length (Value opt) \<le> 65531"
  shows "encodeOptions e opts acc = Inr (acc @ encodedOptions e opts)"
  using assms
  by (induction opts arbitrary: acc) (simp_all add: encodedOptions_def Bytes_Some)

lemma new_block_layout:
  assumes "length a = 4" and "length b = 4" and "length c = 4" and "length d = 2"
    and "length f = 2" and "length g = 8"
  shows "andThen (store (replicate (4 + 4 + 4 + 2 + 2 + 8 + length shbOpts + 4) 0) 0 4 a) (\<lambda>new1.
          andThen (store new1 4 8 b) (\<lambda>new2.
          andThen (store new2 8 12 c) (\<lambda>new3.
          andThen (store new3 12 14 d) (\<lambda>new4.
          andThen (store new4 14 16 f) (\<lambda>new5.
          andThen (store new5 16 24 g) (\<lambda>new6.
          andThen (copyAt new6 24 shbOpts) (\<lambda>new7.
          andThen (store new7 (4 + 4 + 4 + 2 + 2 + 8 + length shbOpts + 4 - 4)
                     (4 + 4 + 4 + 2 + 2 + 8 + length shbOpts + 4) b) k)))))))
     = k (a @ b @ c @ d @ f @ g @ shbOpts @ b)"
  using assms by (simp add: store_def copyAt_def)


lemma newComment_fresh:
  "newComment marshal pe None = Inr (targetmarker @ yamlOf marshal pe)"
  by (simp add: newComment_def yamlOf_def Let_def split: option.split)

lemma rebuildSHB_fresh:
  assumes "\<forall>opt \<in> set opts. length (Value opt) \<le> 65531"
    and "length (targetmarker @ yamlOf marshal pe) \<le> 65531"
    and "unat (shbLen pe) \<le> length (shb pe)"
  shows "rebuildSHB marshal pe e major minor opts None
     = Inr (shbBlock e major minor (- 1)
              (encodedOptions e (\<lparr>Code = OptComment, Value = targetmarker @ yamlOf marshal pe\<rparr> # opts))
            @ drop (unat (shbLen pe)) (shb pe),
            pe\<lparr>passThrough := True, shb := []\<rparr>)"
proof -
  let ?c = "\<lparr>Code = OptComment, Value = targetmarker @ yamlOf marshal pe\<rparr>"
  have enc: "encodeOptions e (?c # opts) [] = Inr (encodedOptions e (?c # opts))"
    using encodeOptions_encoded [of "?c # opts" e "[]"] assms(1,2) by simp
  have sl: "sliceFrom (shb pe) (unat (shbLen pe)) = Inr (drop (unat (shbLen pe)) (shb pe))"
    using assms(3) by (rule sliceFrom_drop)
  show ?thesis
    unfolding rebuildSHB_def newComment_fresh andThen_Inr enc Let_def
    by (subst new_block_layout) (simp_all add: sl shbBlock_def)
qed


lemma magic_bytes: "PutUint32 e 0x0a0d0d0a = [0x0a, 0x0d, 0x0d, 0x0a]"
  by (cases e) (simp_all add: PutUint32_def)

lemma bom_bytes: "(PutUint32 e 0x1a2b3c4d = [0x1a, 0x2b, 0x3c, 0x4d]) = (e = BigEndian)"
  by (cases e) (simp_all add: PutUint32_def)

lemma Uint64_returns: "length b = 8 \<Longrightarrow> \<exists>v. Uint64 e b = Inr v"
  by (simp add: Uint64_def)

lemma length_shbBlock [simp]: "length (shbBlock e major minor sl ob) = 28 + length ob"
  by (simp add: shbBlock_def)

lemma processSHB_fresh:
  assumes "\<forall>opt \<in> set opts. wellFormedOption opt \<and> Code opt \<noteq> OptComment"
    and "length (targetmarker @ yamlOf marshal pe) \<le> 65531"
    and "shb pe = shbBlock e major minor sl (encodedOptions e opts @ endOfOptions eoo) @ rest"
    and "Endian pe = Some e"
    and "shbLen pe = word_of_nat (28 + length (encodedOptions e opts @ endOfOptions eoo))"
    and "28 + length (encodedOptions e opts @ endOfOptions eoo) < 4294967296"
  shows "processSHB marshal pe
     = Some (Inr (shbBlock e major minor (- 1)
                    (encodedOptions e
                       (\<lparr>Code = OptComment, Value = targetmarker @ yamlOf marshal pe\<rparr> # opts))
                  @ rest,
                  pe\<lparr>passThrough := True, shb := []\<rparr>))"
proof -
  let ?ob = "encodedOptions e opts @ endOfOptions eoo"
  let ?L = "28 + length ?ob"
  have h1: "slice (shb pe) 12 14 = Inr (PutUint16 e major)"
    and h2: "slice (shb pe) 14 16 = Inr (PutUint16 e minor)"
    and h3: "slice (shb pe) 16 24 = Inr (PutUint64 e sl)"
    by (simp_all add: assms(3) shbBlock_def slice_def)
  have u1: "Uint16 e (PutUint16 e major) = Inr major"
    and u2: "Uint16 e (PutUint16 e minor) = Inr minor"
    using Uint16_PutUint16 [of e _ "[]"] by simp_all
  obtain v where u3: "Uint64 e (PutUint64 e sl) = Inr v"
    using Uint64_returns [of "PutUint64 e sl" e] by auto
  have hdr: "andThen (slice (shb pe) 12 14) (\<lambda>b. andThen (theEndian pe) (\<lambda>endian.
           andThen (Uint16 endian b) (\<lambda>major.
           andThen (andThen (slice (shb pe) 14 16) (Uint16 endian)) (\<lambda>minor.
           andThen (andThen (slice (shb pe) 16 24) (Uint64 endian)) (\<lambda>sectionLen.
             Inr (endian, major, minor)))))) = Inr (e, major, minor)"
    by (simp add: h1 h2 h3 u1 u2 u3 theEndian_def assms(4))
  have wf: "\<forall>opt \<in> set opts. wellFormedOption opt"
    and nc: "None \<noteq> None \<or> (\<forall>opt \<in> set opts. Code opt \<noteq> OptComment)"
    and vl: "\<forall>opt \<in> set opts. length (Value opt) \<le> 65531"
    using assms(1) by (auto simp: wellFormedOption_def)
  have d: "drop 24 (shb pe)
      = encodedOptions e opts @ endOfOptions eoo @ (PutUint32 e (word_of_nat ?L) @ rest)"
    by (simp add: assms(3) shbBlock_def)
  have le: "24 \<le> length (shb pe)"
    by (simp add: assms(3))
  have len: "24 + length (encodedOptions e opts) + length (endOfOptions eoo) + 4 = ?L"
    by simp
  have "scanOptions e (shb pe) (word_of_nat ?L) (word_of_nat 24) [] None
      = Some (Inr ([] @ opts, None))"
    by (rule scanOptions_encoded [OF wf nc d le len assms(6)])
  then have scan: "scanOptions e (shb pe) (shbLen pe) 24 [] None = Some (Inr (opts, None))"
    by (simp add: assms(5))
  have ul: "unat (shbLen pe) = ?L"
    unfolding assms(5) using assms(6) by (rule unat_of_nat32)
  have over: "drop (unat (shbLen pe)) (shb pe) = rest"
    unfolding ul by (simp add: assms(3))
  have le2: "unat (shbLen pe) \<le> length (shb pe)"
    unfolding ul by (simp add: assms(3))
  show ?thesis
    unfolding processSHB_def hdr
    by (simp add: scan rebuildSHB_fresh [OF vl assms(2) le2] over)
qed

lemma shbLenEndianness_block:
  assumes "shb pe = shbBlock e major minor sl ob @ rest"
  shows "shbLenEndianness pe
     = Inr (True, pe\<lparr>Endian := Some e, shbLen := word_of_nat (28 + length ob)\<rparr>)"
proof -
  have s1: "slice (shb pe) 0 4 = Inr [0x0a, 0x0d, 0x0d, 0x0a]"
    by (simp add: assms shbBlock_def slice_def magic_bytes)
  have s2: "slice (shb pe) 8 12 = Inr (PutUint32 e 0x1a2b3c4d)"
    by (simp add: assms shbBlock_def slice_def)
  have s3: "slice (shb pe) 4 8 = Inr (PutUint32 e (word_of_nat (28 + length ob)))"
    by (simp add: assms shbBlock_def slice_def)
  have u: "Uint32 e' (PutUint32 e' w) = Inr w" for e' w
    using Uint32_PutUint32 [of e' w "[]"] by simp
  show ?thesis
    unfolding shbLenEndianness_def s1 s2 s3 andThen_Inr
    by (cases e) (simp_all add: bom_bytes u Let_def)
qed


lemma process_fresh:
  assumes "\<forall>opt \<in> set opts. wellFormedOption opt \<and> Code opt \<noteq> OptComment"
    and "length (targetmarker @ yamlOf marshal pe) \<le> 65531"
    and "shb pe @ b = shbBlock e major minor sl (encodedOptions e opts @ endOfOptions eoo) @ rest"
    and "\<not> passThrough pe"
    and "shbLen pe = 0
         \<or> (Endian pe = Some e
            \<and> shbLen pe = word_of_nat (28 + length (encodedOptions e opts @ endOfOptions eoo)))"
    and "length (shb pe @ b) < 4294967296"
  shows "process marshal pe b
     = Some (Inr (shbBlock e major minor (- 1)
                    (encodedOptions e
                       (\<lparr>Code = OptComment, Value = targetmarker @ yamlOf marshal pe\<rparr> # opts))
                  @ rest,
                  pe\<lparr>Endian := Some e,
                     shbLen := word_of_nat (28 + length (encodedOptions e opts @ endOfOptions eoo)),
                     passThrough := True, shb := []\<rparr>))"
proof -
  let ?ob = "encodedOptions e opts @ endOfOptions eoo"
  let ?L = "28 + length ?ob"
  let ?pe1 = "pe\<lparr>shb := shb pe @ b\<rparr>"
  let ?pe2 = "?pe1\<lparr>Endian := Some e, shbLen := word_of_nat ?L\<rparr>"
  have len: "length (shb pe @ b) = ?L + length rest"
    unfolding assms(3) by simp
  have L: "?L < 4294967296"
    using assms(6) len by simp
  have det: "(if shbLen ?pe1 = 0 \<and> 12 \<le> length (shb ?pe1)
              then shbLenEndianness ?pe1 else Inr (True, ?pe1)) = Inr (True, ?pe2)"
  proof (cases "shbLen pe = 0")
    case True
    have "12 \<le> length (shb ?pe1)"
      using len by simp
    moreover have "shbLenEndianness ?pe1 = Inr (True, ?pe2)"
      by (rule shbLenEndianness_block) (simp add: assms(3))
    ultimately show ?thesis using True by simp
  next
    case False
    then have "Endian pe = Some e" and "shbLen pe = word_of_nat ?L"
      using assms(5) by auto
    then have "?pe2 = ?pe1" by simp
    then show ?thesis using False by simp
  qed
  have u: "unat (word_of_nat ?L :: 32 word) = ?L"
    using L by (rule unat_of_nat32)
  have u2: "unat (word_of_nat (length (shb pe @ b)) :: 32 word) = length (shb pe @ b)"
    using assms(6) by (rule unat_of_nat32)
  have nz: "(word_of_nat ?L :: 32 word) \<noteq> 0"
    using u by (metis unat_0 add_is_0 zero_neq_numeral)
  have "?L \<le> length (shb pe @ b)"
    unfolding len by simp
  then have "unat (word_of_nat ?L :: 32 word)
      \<le> unat (word_of_nat (length (shb pe @ b)) :: 32 word)"
    by (simp only: u u2)
  then have le: "(word_of_nat ?L :: 32 word) \<le> word_of_nat (length (shb pe @ b))"
    by (simp only: word_le_nat_alt)
  have cond: "shbLen ?pe2 \<noteq> 0 \<and> shbLen ?pe2 \<le> word_of_nat (length (shb ?pe2))"
    using nz le by simp
  have y: "yamlOf marshal ?pe2 = yamlOf marshal pe"
    by (simp add: yamlOf_def containerInfo_def)
  have "processSHB marshal ?pe2
     = Some (Inr (shbBlock e major minor (- 1)
                    (encodedOptions e
                       (\<lparr>Code = OptComment, Value = targetmarker @ yamlOf marshal ?pe2\<rparr> # opts))
                  @ rest,
                  ?pe2\<lparr>passThrough := True, shb := []\<rparr>))"
    using assms(1) assms(2) [folded y] _ _ _ L
    by (rule processSHB_fresh) (simp_all add: assms(3))
  then have p: "processSHB marshal ?pe2
     = Some (Inr (shbBlock e major minor (- 1)
                    (encodedOptions e
                       (\<lparr>Code = OptComment, Value = targetmarker @ yamlOf marshal pe\<rparr> # opts))
                  @ rest,
                  pe\<lparr>Endian := Some e, shbLen := word_of_nat ?L, passThrough := True, shb := []\<rparr>))"
    unfolding y by simp
  show ?thesis
    unfolding process_def Let_def det
    using assms(4) cond p by simp
qed


lemma scanOptions_rewritten:
  assumes "\<forall>opt \<in> set opts. wellFormedOption opt"
    and "length v \<le> 65531"
    and "28 + length (encodedOptions e (\<lparr>Code = OptComment, Value = v\<rparr> # opts)) < 4294967296"
  shows "scanOptions e
            (shbBlock e major minor sl (encodedOptions e (\<lparr>Code = OptComment, Value = v\<rparr> # opts)))
            (word_of_nat (28 + length (encodedOptions e (\<lparr>Code = OptComment, Value = v\<rparr> # opts))))
            24 [] None
     = Some (Inr (opts, Some \<lparr>Code = OptComment, Value = v\<rparr>))"
proof -
  let ?c = "\<lparr>Code = OptComment, Value = v\<rparr>"
  let ?L = "28 + length (encodedOptions e (?c # opts))"
  let ?new = "shbBlock e major minor sl (encodedOptions e (?c # opts))"
  let ?n = "length (encoded e ?c)"
  have Ln: "?L = 28 + ?n + length (encodedOptions e opts)"
    by (simp add: encodedOptions_def)
  have "24 < ?L - 4" and "4 \<le> ?L"
    unfolding Ln using length_encoded_ge4 [of e ?c] by arith+
  then have lt: "(word_of_nat 24 :: 32 word) < word_of_nat ?L - 4"
    using offset_less [of 24 ?L] assms(3) by simp
  have sl: "sliceFrom ?new (unat (24 :: 32 word))
      = Inr (encoded e ?c @ (encodedOptions e opts @ PutUint32 e (word_of_nat ?L)))"
    by (simp add: sliceFrom_def slice_def shbBlock_def encodedOptions_def)
  have n: "NewOption (encoded e ?c @ (encodedOptions e opts @ PutUint32 e (word_of_nat ?L))) e
      = Inr (Some ?c, ?n)"
    using assms(2) by (intro NewOption_encoded) (simp_all add: OptComment_def)
  have first: "scanOptions e ?new (word_of_nat ?L) 24 [] None
      = scanOptions e ?new (word_of_nat ?L) (24 + word_of_nat ?n) [] (Some ?c)"
    using scanOptions_step [OF _ sl n, of "word_of_nat ?L" "[]" None] lt by simp
  have d: "drop (24 + ?n) ?new
      = encodedOptions e opts @ endOfOptions False @ PutUint32 e (word_of_nat ?L)"
    by (simp add: shbBlock_def encodedOptions_def endOfOptions_def)
  have le: "24 + ?n \<le> length ?new"
    by (simp add: encodedOptions_def)
  have len: "24 + ?n + length (encodedOptions e opts) + length (endOfOptions False) + 4 = ?L"
    by (simp add: encodedOptions_def endOfOptions_def)
  have fc: "Some ?c \<noteq> None \<or> (\<forall>opt \<in> set opts. Code opt \<noteq> OptComment)"
    by simp
  have "scanOptions e ?new (word_of_nat ?L) (word_of_nat (24 + ?n)) [] (Some ?c)
      = Some (Inr ([] @ opts, Some ?c))"
    by (rule scanOptions_encoded [OF assms(1) fc d le len assms(3)])
  then show ?thesis
    unfolding first by simp
qed

lemma shbBlock_lengths:
  "Uint32 e (take 4 (drop 4 (shbBlock e major minor sl ob))) = Inr (word_of_nat (28 + length ob))"
  "Uint32 e (drop (length (shbBlock e major minor sl ob) - 4) (shbBlock e major minor sl ob))
     = Inr (word_of_nat (28 + length ob))"
  using Uint32_PutUint32 [of e "word_of_nat (28 + length ob)" "[]"]
  by (simp_all add: shbBlock_def)

lemma shbLenEndianness_prefix:
  assumes "12 \<le> length (shb pe)"
    and "take 12 (shb pe) = take 12 (shbBlock e major minor sl ob)"
  shows "shbLenEndianness pe
     = Inr (True, pe\<lparr>Endian := Some e, shbLen := word_of_nat (28 + length ob)\<rparr>)"
proof -
  let ?blk = "shbBlock e major minor sl ob"
  have t: "take 4 (drop k (shb pe)) = take 4 (drop k ?blk)" if "k + 4 \<le> 12" for k
  proof -
    have "take 4 (drop k (shb pe)) = take 4 (drop k (take 12 (shb pe)))"
      using that by (simp add: drop_take)
    also have "\<dots> = take 4 (drop k (take 12 ?blk))"
      by (simp only: assms(2))
    also have "\<dots> = take 4 (drop k ?blk)"
      using that by (simp add: drop_take)
    finally show ?thesis .
  qed
  have s1: "slice (shb pe) 0 4 = Inr [0x0a, 0x0d, 0x0d, 0x0a]"
    using assms(1) t [of 0] by (simp add: slice_def shbBlock_def magic_bytes)
  have s2: "slice (shb pe) 8 12 = Inr (PutUint32 e 0x1a2b3c4d)"
    using assms(1) t [of 8] by (simp add: slice_def shbBlock_def)
  have s3: "slice (shb pe) 4 8 = Inr (PutUint32 e (word_of_nat (28 + length ob)))"
    using assms(1) t [of 4] by (simp add: slice_def shbBlock_def)
  have u: "Uint32 e' (PutUint32 e' w) = Inr w" for e' w
    using Uint32_PutUint32 [of e' w "[]"] by simp
  show ?thesis
    unfolding shbLenEndianness_def s1 s2 s3 andThen_Inr
    by (cases e) (simp_all add: bom_bytes u Let_def)
qed

lemma process_incomplete:
  assumes "shb pe @ b @ later = shbBlock e major minor sl ob @ rest"
    and "\<not> passThrough pe"
    and "(shbLen pe = 0 \<and> length (shb pe) < 12)
         \<or> (Endian pe = Some e \<and> shbLen pe = word_of_nat (28 + length ob))"
    and "length (shb pe @ b) < 28 + length ob"
    and "28 + length ob < 4294967296"
  shows "\<exists>pe'. process marshal pe b = Some (Inr ([], pe'))
     \<and> shb pe' = shb pe @ b \<and> \<not> passThrough pe'
     \<and> ((shbLen pe' = 0 \<and> length (shb pe') < 12)
         \<or> (Endian pe' = Some e \<and> shbLen pe' = word_of_nat (28 + length ob)))
     \<and> pe'\<lparr>Endian := Some e, shbLen := word_of_nat (28 + length ob),
             passThrough := True, shb := []\<rparr>
        = pe\<lparr>Endian := Some e, shbLen := word_of_nat (28 + length ob),
             passThrough := True, shb := []\<rparr>
     \<and> containerInfo pe' = containerInfo pe"
proof -
  let ?L = "28 + length ob"
  let ?pe1 = "pe\<lparr>shb := shb pe @ b\<rparr>"
  let ?pe2 = "?pe1\<lparr>Endian := Some e, shbLen := word_of_nat ?L\<rparr>"
  have u: "unat (word_of_nat ?L :: 32 word) = ?L"
    using assms(5) by (rule unat_of_nat32)
  have u2: "unat (word_of_nat (length (shb pe @ b)) :: 32 word) = length (shb pe @ b)"
    using assms(4,5) by (intro unat_of_nat32) simp
  have nle: "\<not> (word_of_nat ?L :: 32 word) \<le> word_of_nat (length (shb pe @ b))"
    unfolding word_le_nat_alt u u2 using assms(4) by simp
  show ?thesis
  proof (cases "shbLen pe = 0 \<and> 12 \<le> length (shb pe @ b)")
    case True
    have "take 12 (shb pe @ b) = take 12 ((shb pe @ b) @ later)"
      using True by simp
    also have "\<dots> = take 12 (shbBlock e major minor sl ob)"
      using assms(1) by simp
    finally have "take 12 (shb ?pe1) = take 12 (shbBlock e major minor sl ob)"
      by simp
    then have "shbLenEndianness ?pe1 = Inr (True, ?pe2)"
      using True by (intro shbLenEndianness_prefix) simp_all
    then have "process marshal pe b = Some (Inr ([], ?pe2))"
      using True assms(2) nle by (simp add: process_def Let_def)
    then show ?thesis
      using assms(2) by (intro exI [of _ ?pe2]) (simp add: containerInfo_def)
  next
    case False
    then have "process marshal pe b = Some (Inr ([], ?pe1))"
      using assms(2,3) nle by (auto simp: process_def Let_def)
    then show ?thesis
      using assms(2,3) False by (intro exI [of _ ?pe1]) (auto simp: containerInfo_def)
  qed
qed


lemma WriteAll_block:
  assumes "\<forall>opt \<in> set opts. wellFormedOption opt \<and> Code opt \<noteq> OptComment"
    and "length (targetmarker @ yamlOf marshal pe) \<le> 65531"
    and "shb pe @ concat chunks
         = shbBlock e major minor sl (encodedOptions e opts @ endOfOptions eoo) @ rest"
    and "\<not> passThrough pe"
    and "(shbLen pe = 0 \<and> length (shb pe) < 12)
         \<or> (Endian pe = Some e
            \<and> shbLen pe = word_of_nat (28 + length (encodedOptions e opts @ endOfOptions eoo)))"
    and "length (shb pe) < 28 + length (encodedOptions e opts @ endOfOptions eoo)"
    and "length (shb pe @ concat chunks) < 4294967296"
  shows "WriteAll marshal bufferWrite pe buf chunks
     = Some (Inr (pe\<lparr>Endian := Some e,
                     shbLen := word_of_nat (28 + length (encodedOptions e opts @ endOfOptions eoo)),
                     passThrough := True, shb := []\<rparr>,
                  buf @ shbBlock e major minor (- 1)
                    (encodedOptions e
                       (\<lparr>Code = OptComment, Value = targetmarker @ yamlOf marshal pe\<rparr> # opts))
                  @ rest))"
  using assms(2-)
proof (induction chunks arbitrary: pe buf)
  case Nil
  then show ?case by simp
next
  case (Cons b bs)
  let ?ob = "encodedOptions e opts @ endOfOptions eoo"
  let ?L = "28 + length ?ob"
  let ?old = "shbBlock e major minor sl ?ob"
  let ?s = "shb pe @ b"
  have all: "?s @ concat bs = ?old @ rest"
    using Cons.prems(2) by simp
  have L: "?L < 4294967296"
  proof -
    have "length (?s @ concat bs) = ?L + length rest"
      unfolding all by simp
    then show ?thesis using Cons.prems(6) by simp
  qed
  show ?case
  proof (cases "?L \<le> length ?s")
    case True
    define rest' where "rest' = drop ?L ?s"
    have "take ?L (?s @ concat bs) = ?old"
      unfolding all by simp
    then have "take ?L ?s = ?old"
      using True by simp
    then have s: "?s = ?old @ rest'"
      unfolding rest'_def by (metis append_take_drop_id)
    have r: "rest = rest' @ concat bs"
      using all unfolding s by simp
    have lt: "length ?s < 4294967296"
      using Cons.prems(6) by simp
    have inv: "shbLen pe = 0 \<or> (Endian pe = Some e \<and> shbLen pe = word_of_nat ?L)"
      using Cons.prems(4) by auto
    have p: "process marshal pe b
       = Some (Inr (shbBlock e major minor (- 1)
                    (encodedOptions e
                       (\<lparr>Code = OptComment, Value = targetmarker @ yamlOf marshal pe\<rparr> # opts))
                  @ rest',
                  pe\<lparr>Endian := Some e, shbLen := word_of_nat ?L,
                     passThrough := True, shb := []\<rparr>))"
      by (rule process_fresh [OF assms(1) Cons.prems(1) s Cons.prems(3) inv lt])
    show ?thesis
      by (simp add: Write_of_process [OF p] WriteAll_passThrough r)
  next
    case False
    then have short: "length ?s < ?L" by simp
    have all': "shb pe @ b @ concat bs = ?old @ rest"
      using all by simp
    obtain pe' where p: "process marshal pe b = Some (Inr ([], pe'))"
      and s': "shb pe' = ?s" and np: "\<not> passThrough pe'"
      and inv': "(shbLen pe' = 0 \<and> length (shb pe') < 12)
         \<or> (Endian pe' = Some e \<and> shbLen pe' = word_of_nat ?L)"
      and fin: "pe'\<lparr>Endian := Some e, shbLen := word_of_nat ?L, passThrough := True, shb := []\<rparr>
        = pe\<lparr>Endian := Some e, shbLen := word_of_nat ?L, passThrough := True, shb := []\<rparr>"
      and ci: "containerInfo pe' = containerInfo pe"
      using process_incomplete [OF all' Cons.prems(3,4) short L, of marshal] by blast
    have y: "yamlOf marshal pe' = yamlOf marshal pe"
      by (simp add: yamlOf_def ci)
    have ih: "WriteAll marshal bufferWrite pe' buf bs
       = Some (Inr (pe'\<lparr>Endian := Some e, shbLen := word_of_nat ?L,
                     passThrough := True, shb := []\<rparr>,
                  buf @ shbBlock e major minor (- 1)
                    (encodedOptions e
                       (\<lparr>Code = OptComment, Value = targetmarker @ yamlOf marshal pe'\<rparr> # opts))
                  @ rest))"
    proof (rule Cons.IH)
      show "length (targetmarker @ yamlOf marshal pe') \<le> 65531"
        unfolding y by (rule Cons.prems(1))
      show "shb pe' @ concat bs = ?old @ rest"
        unfolding s' by (rule all)
      show "\<not> passThrough pe'" by (rule np)
      show "(shbLen pe' = 0 \<and> length (shb pe') < 12)
         \<or> (Endian pe' = Some e \<and> shbLen pe' = word_of_nat ?L)" by (rule inv')
      show "length (shb pe') < ?L"
        unfolding s' by (rule short)
      show "length (shb pe' @ concat bs) < 4294967296"
        unfolding s' using Cons.prems(6) by simp
    qed
    have w: "WriteAll marshal bufferWrite pe buf (b # bs) = WriteAll marshal bufferWrite pe' buf bs"
      by (simp add: Write_of_process [OF p])
    show ?thesis
      by (simp only: w ih fin y)
  qed
qed

text \<open>
  C1, as the code has it. A fresh editor is written, in chunks of any sizes, a section
  header block followed by any further octets. The options of the block, each with a
  value of at most 65531 octets, hold no comment, and the block has an end-of-options
  mark or has none; the new comment text, which is the target marker followed by the
  YAML of the target, is at most 65531 octets long, and the stream and the new block
  are shorter than 4 GiB. Then the sink receives the rewritten block followed by the
  octets after the old block, unchanged, and the editor is in pass-through mode. The
  rewritten block has the fixed fields of the old one except for the section length,
  which is all ones; its options are the new comment first and then the old options in
  their old order, without end-of-options mark, so that reading it back yields that
  comment as the first and only comment; both of its length fields hold the number of
  its octets; and this number is the old length plus the length of the encoded comment
  (4 plus the length of the text, rounded up to a multiple of 4), less the 4 octets of
  the end-of-options mark if the old block had one.
\<close>

theorem fresh_comment_first:
  assumes "\<forall>opt \<in> set opts. wellFormedOption opt \<and> Code opt \<noteq> OptComment"
    and "length (targetmarker @ yamlOf marshal (NewStreamEditor t f p)) \<le> 65531"
    and "concat chunks
         = shbBlock e major minor sl (encodedOptions e opts @ endOfOptions eoo) @ rest"
    and "length (concat chunks) < 4294967296"
    and "length (shbBlock e major minor (- 1)
           (encodedOptions e
              (\<lparr>Code = OptComment,
                 Value = targetmarker @ yamlOf marshal (NewStreamEditor t f p)\<rparr> # opts)))
         < 4294967296"
  shows "let pe = NewStreamEditor t f p;
             comment = \<lparr>Code = OptComment, Value = targetmarker @ yamlOf marshal pe\<rparr>;
             old = shbBlock e major minor sl (encodedOptions e opts @ endOfOptions eoo);
             new = shbBlock e major minor (- 1) (encodedOptions e (comment # opts))
         in WriteAll marshal bufferWrite pe [] chunks
              = Some (Inr (pe\<lparr>Endian := Some e, shbLen := word_of_nat (length old),
                              passThrough := True, shb := []\<rparr>,
                           new @ rest))
            \<and> new = PutUint32 e 0x0a0d0d0a @ PutUint32 e (word_of_nat (length new))
                  @ PutUint32 e 0x1a2b3c4d @ PutUint16 e major @ PutUint16 e minor
                  @ PutUint64 e (- 1) @ encoded e comment @ encodedOptions e opts
                  @ PutUint32 e (word_of_nat (length new))
            \<and> scanOptions e new (word_of_nat (length new)) 24 [] None
                = Some (Inr (opts, Some comment))
            \<and> Uint32 e (take 4 (drop 4 new)) = Inr (word_of_nat (length new))
            \<and> Uint32 e (drop (length new - 4) new) = Inr (word_of_nat (length new))
            \<and> unat (word_of_nat (length new) :: 32 word) = length new
            \<and> length new
                = length old + roundUp4 (4 + length (Value comment)) - (if eoo then 4 else 0)"
proof -
  let ?pe = "NewStreamEditor t f p"
  let ?c = "\<lparr>Code = OptComment, Value = targetmarker @ yamlOf marshal ?pe\<rparr>"
  let ?old = "shbBlock e major minor sl (encodedOptions e opts @ endOfOptions eoo)"
  let ?new = "shbBlock e major minor (- 1) (encodedOptions e (?c # opts))"
  have wf: "\<forall>opt \<in> set opts. wellFormedOption opt"
    using assms(1) by simp
  have L: "28 + length (encodedOptions e (?c # opts)) < 4294967296"
    using assms(5) by simp
  have s: "shb ?pe @ concat chunks = ?old @ rest"
    using assms(3) by (simp add: NewStreamEditor_def)
  have np: "\<not> passThrough ?pe"
    by (simp add: NewStreamEditor_def)
  have inv: "(shbLen ?pe = 0 \<and> length (shb ?pe) < 12)
      \<or> (Endian ?pe = Some e
         \<and> shbLen ?pe = word_of_nat (28 + length (encodedOptions e opts @ endOfOptions eoo)))"
    by (simp add: NewStreamEditor_def)
  have short: "length (shb ?pe) < 28 + length (encodedOptions e opts @ endOfOptions eoo)"
    by (simp add: NewStreamEditor_def)
  have lt: "length (shb ?pe @ concat chunks) < 4294967296"
    using assms(4) by (simp add: NewStreamEditor_def)
  have "WriteAll marshal bufferWrite ?pe [] chunks
      = Some (Inr (?pe\<lparr>Endian := Some e,
                     shbLen := word_of_nat (28 + length (encodedOptions e opts @ endOfOptions eoo)),
                     passThrough := True, shb := []\<rparr>,
                   [] @ ?new @ rest))"
    by (rule WriteAll_block [OF assms(1,2) s np inv short lt])
  then have w: "WriteAll marshal bufferWrite ?pe [] chunks
      = Some (Inr (?pe\<lparr>Endian := Some e, shbLen := word_of_nat (length ?old),
                     passThrough := True, shb := []\<rparr>,
                   ?new @ rest))"
    by simp
  have lay: "?new = PutUint32 e 0x0a0d0d0a @ PutUint32 e (word_of_nat (length ?new))
                  @ PutUint32 e 0x1a2b3c4d @ PutUint16 e major @ PutUint16 e minor
                  @ PutUint64 e (- 1) @ encoded e ?c @ encodedOptions e opts
                  @ PutUint32 e (word_of_nat (length ?new))"
    by (simp add: shbBlock_def encodedOptions_def)
  have sc: "scanOptions e ?new (word_of_nat (length ?new)) 24 [] None = Some (Inr (opts, Some ?c))"
    using scanOptions_rewritten [OF wf assms(2) L, of major minor "- 1"] by simp
  have f1: "Uint32 e (take 4 (drop 4 ?new)) = Inr (word_of_nat (length ?new))"
    and f2: "Uint32 e (drop (length ?new - 4) ?new) = Inr (word_of_nat (length ?new))"
    using shbBlock_lengths [of e major minor "- 1" "encodedOptions e (?c # opts)"]
    by simp_all
  have u: "unat (word_of_nat (length ?new) :: 32 word) = length ?new"
    using assms(5) by (rule unat_of_nat32)
  have len: "length ?new = length ?old + roundUp4 (4 + length (Value ?c)) - (if eoo then 4 else 0)"
    by (simp add: encodedOptions_def endOfOptions_def length_encoded)
  show ?thesis
    unfolding Let_def using w lay sc f1 f2 u len by blast
qed

text \<open>
  A big-endian block with one option (code 2, "x86"), the end-of-options mark and five
  octets after it, written in three chunks: 40 octets become 128.
\<close>

theorem fresh_comment_first_witness:
  "WriteAll exampleMarshal bufferWrite (NewStreamEditor None [] False) []
     [[0x0a, 0x0d, 0x0d, 0x0a, 0x00, 0x00, 0x00, 0x28, 0x1a, 0x2b],
      [0x3c, 0x4d, 0x00, 0x01, 0x00, 0x00, 0xff, 0xff, 0xff, 0xff, 0xff, 0xff, 0xff, 0xff,
       0x00, 0x02, 0x00, 0x03, 120, 56],
      [54, 0x00, 0x00, 0x00, 0x00, 0x00, 0x00, 0x00, 0x00, 0x28, 1, 2, 3, 4, 5]]
   = Some (Inr ((NewStreamEditor None [] False)\<lparr>Endian := Some BigEndian, shbLen := 40,
         passThrough := True, shb := []\<rparr>,
      [0x0a, 0x0d, 0x0d, 0x0a, 0x00, 0x00, 0x00, 0x80, 0x1a, 0x2b, 0x3c, 0x4d,
        0x00, 0x01, 0x00, 0x00, 0xff, 0xff, 0xff, 0xff, 0xff, 0xff, 0xff, 0xff,
        0x00, 0x01, 0x00, 85] @ targetmarker @ exampleYaml @ [0x00, 0x00, 0x00,
        0x00, 0x02, 0x00, 0x03, 120, 56, 54, 0x00, 0x00, 0x00, 0x00, 0x80, 1, 2, 3, 4, 5]))"
proof -
  let ?pe = "NewStreamEditor None [] False"
  let ?opts = "[\<lparr>Code = 2, Value = [120, 56, 54]\<rparr>]"
  let ?chunks = "[[0x0a, 0x0d, 0x0d, 0x0a, 0x00, 0x00, 0x00, 0x28, 0x1a, 0x2b],
      [0x3c, 0x4d, 0x00, 0x01, 0x00, 0x00, 0xff, 0xff, 0xff, 0xff, 0xff, 0xff, 0xff, 0xff,
       0x00, 0x02, 0x00, 0x03, 120, 56],
      [54, 0x00, 0x00, 0x00, 0x00, 0x00, 0x00, 0x00, 0x00, 0x28, 1, 2, 3, 4, 5 :: byte]]"
  let ?old = "shbBlock BigEndian 1 0 (- 1) (encodedOptions BigEndian ?opts @ endOfOptions True)"
  let ?new = "shbBlock BigEndian 1 0 (- 1) (encodedOptions BigEndian
      (\<lparr>Code = OptComment, Value = targetmarker @ yamlOf exampleMarshal ?pe\<rparr> # ?opts))"
  have h1: "\<forall>opt \<in> set ?opts. wellFormedOption opt \<and> Code opt \<noteq> OptComment"
    by (simp add: wellFormedOption_def OptComment_def)
  have h2: "length (targetmarker @ yamlOf exampleMarshal ?pe) \<le> 65531"
    by code_simp
  have h3: "concat ?chunks = ?old @ [1, 2, 3, 4, 5]"
    by code_simp
  have h4: "length (concat ?chunks) < 4294967296"
    by simp
  have n: "?new = [0x0a, 0x0d, 0x0d, 0x0a, 0x00, 0x00, 0x00, 0x80, 0x1a, 0x2b, 0x3c, 0x4d,
        0x00, 0x01, 0x00, 0x00, 0xff, 0xff, 0xff, 0xff, 0xff, 0xff, 0xff, 0xff,
        0x00, 0x01, 0x00, 85] @ targetmarker @ exampleYaml @ [0x00, 0x00, 0x00,
        0x00, 0x02, 0x00, 0x03, 120, 56, 54, 0x00, 0x00, 0x00, 0x00, 0x80]"
    by code_simp
  have h5: "length ?new < 4294967296"
    unfolding n by (simp add: targetmarker_def exampleYaml_def string_bytes_def)
  have o: "(word_of_nat (length ?old) :: 32 word) = 40"
    by code_simp
  have "WriteAll exampleMarshal bufferWrite ?pe [] ?chunks
      = Some (Inr (?pe\<lparr>Endian := Some BigEndian, shbLen := word_of_nat (length ?old),
             passThrough := True, shb := []\<rparr>,
          ?new @ [1, 2, 3, 4, 5]))"
    using fresh_comment_first [OF h1 h2 h3 h4 h5] unfolding Let_def by blast
  then show ?thesis
    unfolding n o by simp
qed

text \<open>
  A block of 32 octets that holds the end-of-options mark only becomes a block of
  120 octets, not of 32 + 92.
\<close>

theorem fresh_comment_first_counterexample:
  "process exampleMarshal (NewStreamEditor None [] False)
     [0x0a, 0x0d, 0x0d, 0x0a, 0x00, 0x00, 0x00, 0x20, 0x1a, 0x2b, 0x3c, 0x4d,
      0x00, 0x01, 0x00, 0x00, 0xff, 0xff, 0xff, 0xff, 0xff, 0xff, 0xff, 0xff,
      0x00, 0x00, 0x00, 0x00, 0x00, 0x00, 0x00, 0x20]
   = Some (Inr ([0x0a, 0x0d, 0x0d, 0x0a, 0x00, 0x00, 0x00, 0x78, 0x1a, 0x2b, 0x3c, 0x4d,
        0x00, 0x01, 0x00, 0x00, 0xff, 0xff, 0xff, 0xff, 0xff, 0xff, 0xff, 0xff,
        0x00, 0x01, 0x00, 85] @ targetmarker @ exampleYaml @ [0x00, 0x00, 0x00,
        0x00, 0x00, 0x00, 0x78],
      (NewStreamEditor None [] False)\<lparr>Endian := Some BigEndian, shbLen := 0x20,
         passThrough := True, shb := []\<rparr>))
   \<and> roundUp4 (4 + length (targetmarker @ exampleYaml)) = 92
   \<and> (0x78 :: nat) \<noteq> 0x20 + 92"
  by code_simp

section \<open>A comment that already holds target information\<close>

text \<open>
  With an end marker after the old target information, \<open>cutTargetInfo\<close> cuts at
  \<open>start[0] + end[0]\<close>, although \<open>end[0]\<close> counts from \<open>start[1]\<close>: it removes as many
  octets from the start of the old information as lie between its marker and the end
  marker, and keeps the rest of it.
\<close>

lemma cutTargetInfo_keeps_tail:
  "cutTargetInfo (string_bytes (''A'' @ [CHR 0x0A]) @ targetmarker @ exampleYaml
       @ string_bytes (''---'' @ [CHR 0x0A] @ ''B''))
     = Inr (string_bytes (''A'' @ [CHR 0x0A]) @ drop 51 (targetmarker @ exampleYaml)
         @ string_bytes (''---'' @ [CHR 0x0A] @ ''B''))"
  by code_simp

text \<open>
  C2 fails on the block \<open>staleBlock\<close>, whose comment is "A", the target marker with
  nothing after it, and an end marker followed by "B": nothing is removed, and the new
  comment holds the target marker twice.
\<close>

theorem stale_target_info_stays:
  "process exampleMarshal (NewStreamEditor None [] False) staleBlock
     = Some (Inr ([0x0a, 0x0d, 0x0d, 0x0a, 0x00, 0x00, 0x00, 0xa0, 0x1a, 0x2b, 0x3c, 0x4d,
          0x00, 0x01, 0x00, 0x00, 0xff, 0xff, 0xff, 0xff, 0xff, 0xff, 0xff, 0xff,
          0x00, 0x01, 0x00, 0x7f] @ staleComment @ [10] @ targetmarker @ exampleYaml
          @ [0x00, 0x00, 0x00, 0x00, 0xa0],
        (NewStreamEditor None [] False)\<lparr>Endian := Some BigEndian, passThrough := True,
           shbLen := 76\<rparr>))
   \<and> occurrences targetmarker staleComment = 1
   \<and> occurrences targetmarker (staleComment @ [10] @ targetmarker @ exampleYaml) = 2"
  by code_simp

section \<open>The tests of the repository\<close>

text \<open>
  The model gives the results that the tests of the \<open>pcapng\<close> package expect: "Encodes
  opts", "Encodes end-of-opts", "Decodes opts", "Decodes end-of-opts", and the three
  tests that edit a section header block for the nil target, whose YAML is
  \<open>exampleYaml\<close>.
\<close>

lemma test_encodes_opts:
  "Bytes (Some \<lparr>Code = 42, Value = string_bytes ''Go''\<rparr>) BigEndian
     = Inr [0, 42, 0, 2, 71, 111, 0, 0]"
  "Bytes (Some \<lparr>Code = 42, Value = string_bytes ''Go''\<rparr>) LittleEndian
     = Inr [42, 0, 2, 0, 71, 111, 0, 0]"
  by code_simp+

lemma test_encodes_end_of_opts:
  "Bytes (Some \<lparr>Code = 0, Value = []\<rparr>) BigEndian = Inr [0, 0, 0, 0]"
  by code_simp

lemma test_decodes_opts:
  "andThen (Bytes (Some \<lparr>Code = OptComment, Value = string_bytes ''Kuhbernetes''\<rparr>) BigEndian)
     (\<lambda>bbig. NewOption bbig BigEndian)
   = Inr (Some \<lparr>Code = OptComment, Value = string_bytes ''Kuhbernetes''\<rparr>, 16)"
  by code_simp

lemma test_decodes_end_of_opts:
  "NewOption [0, 0, 0, 0] BigEndian = Inr (None, 4)"
  by code_simp

lemma test_creating_new_comment:
  "process exampleMarshal (NewStreamEditor None [] False)
     [0x0a, 0x0d, 0x0d, 0x0a, 0x00, 0x00, 0x00, 0x1c, 0x1a, 0x2b, 0x3c, 0x4d, 0x00,
      0x01, 0x00, 0x00, 0xff, 0xff, 0xff, 0xff, 0xff, 0xff, 0xff, 0xff, 0x00, 0x00,
      0x00, 0x1c, 0x01, 0x02, 0x03, 0x04, 0x05]
   = Some (Inr
     ([0x0a, 0x0d, 0x0d, 0x0a, 0x00, 0x00, 0x00, 0x78, 0x1a, 0x2b, 0x3c, 0x4d, 0x00,
      0x01, 0x00, 0x00, 0xff, 0xff, 0xff, 0xff, 0xff, 0xff, 0xff, 0xff, 0x00, 0x01,
      0x00, 0x55, 0x2d, 0x2d, 0x2d, 0x0a, 0x23, 0x20, 0x63, 0x61, 0x70, 0x74, 0x75,
      0x72, 0x65, 0x20, 0x74, 0x61, 0x72, 0x67, 0x65, 0x74, 0x20, 0x69, 0x6e, 0x66,
      0x6f, 0x72, 0x6d, 0x61, 0x74, 0x69, 0x6f, 0x6e, 0x0a, 0x63, 0x6f, 0x6e, 0x74,
      0x61, 0x69, 0x6e, 0x65, 0x72, 0x2d, 0x6e, 0x61, 0x6d, 0x65, 0x3a, 0x20, 0x22,
      0x22, 0x0a, 0x63, 0x6f, 0x6e, 0x74, 0x61, 0x69, 0x6e, 0x65, 0x72, 0x2d, 0x74,
      0x79, 0x70, 0x65, 0x3a, 0x20, 0x22, 0x22, 0x0a, 0x6e, 0x6f, 0x64, 0x65, 0x2d,
      0x6e, 0x61, 0x6d, 0x65, 0x3a, 0x20, 0x22, 0x22, 0x0a, 0x00, 0x00, 0x00, 0x00,
      0x00, 0x00, 0x78, 0x01, 0x02, 0x03, 0x04, 0x05],
      (NewStreamEditor None [] False)\<lparr>Endian := Some BigEndian, shbLen := 28,
         passThrough := True, shb := []\<rparr>))"
  by code_simp

lemma test_editing_existing_comment:
  "process exampleMarshal (NewStreamEditor None [] False)
     [0x0a, 0x0d, 0x0d, 0x0a, 0x00, 0x00, 0x00, 0x24, 0x1a, 0x2b, 0x3c, 0x4d, 0x00,
      0x01, 0x00, 0x00, 0xff, 0xff, 0xff, 0xff, 0xff, 0xff, 0xff, 0xff, 0x00, 0x01,
      0x00, 0x03, 0x41, 0x42, 0x43, 0x00, 0x00, 0x00, 0x00, 0x24, 0x01, 0x02, 0x03,
      0x04, 0x05]
   = Some (Inr
     ([0x0a, 0x0d, 0x0d, 0x0a, 0x00, 0x00, 0x00, 0x7c, 0x1a, 0x2b, 0x3c, 0x4d, 0x00,
      0x01, 0x00, 0x00, 0xff, 0xff, 0xff, 0xff, 0xff, 0xff, 0xff, 0xff, 0x00, 0x01,
      0x00, 0x59, 0x41, 0x42, 0x43, 0x0a, 0x2d, 0x2d, 0x2d, 0x0a, 0x23, 0x20, 0x63,
      0x61, 0x70, 0x74, 0x75, 0x72, 0x65, 0x20, 0x74, 0x61, 0x72, 0x67, 0x65, 0x74,
      0x20, 0x69, 0x6e, 0x66, 0x6f, 0x72, 0x6d, 0x61, 0x74, 0x69, 0x6f, 0x6e, 0x0a,
      0x63, 0x6f, 0x6e, 0x74, 0x61, 0x69, 0x6e, 0x65, 0x72, 0x2d, 0x6e, 0x61, 0x6d,
      0x65, 0x3a, 0x20, 0x22, 0x22, 0x0a, 0x63, 0x6f, 0x6e, 0x74, 0x61, 0x69, 0x6e,
      0x65, 0x72, 0x2d, 0x74, 0x79, 0x70, 0x65, 0x3a, 0x20, 0x22, 0x22, 0x0a, 0x6e,
      0x6f, 0x64, 0x65, 0x2d, 0x6e, 0x61, 0x6d, 0x65, 0x3a, 0x20, 0x22, 0x22, 0x0a,
      0x00, 0x00, 0x00, 0x00, 0x00, 0x00, 0x7c, 0x01, 0x02, 0x03, 0x04, 0x05],
      (NewStreamEditor None [] False)\<lparr>Endian := Some BigEndian, shbLen := 36,
         passThrough := True, shb := []\<rparr>))"
  by code_simp

lemma test_replacing_target_data:
  "process exampleMarshal (NewStreamEditor None [] False)
     [0x0a, 0x0d, 0x0d, 0x0a, 0x00, 0x00, 0x00, 0x48, 0x1a, 0x2b, 0x3c, 0x4d, 0x00,
      0x01, 0x00, 0x00, 0xff, 0xff, 0xff, 0xff, 0xff, 0xff, 0xff, 0xff, 0x00, 0x01,
      0x00, 0x25, 0x41, 0x42, 0x43, 0x0a, 0x2d, 0x2d, 0x2d, 0x0a, 0x23, 0x20, 0x63,
      0x61, 0x70, 0x74, 0x75, 0x72, 0x65, 0x20, 0x74, 0x61, 0x72, 0x67, 0x65, 0x74,
      0x20, 0x69, 0x6e, 0x66, 0x6f, 0x72, 0x6d, 0x61, 0x74, 0x69, 0x6f, 0x6e, 0x0a,
      0x00, 0x00, 0x00, 0x00, 0x00, 0x00, 0x48, 0x01, 0x02, 0x03, 0x04, 0x05]
   = Some (Inr
     ([0x0a, 0x0d, 0x0d, 0x0a, 0x00, 0x00, 0x00, 0x7c, 0x1a, 0x2b, 0x3c, 0x4d, 0x00,
      0x01, 0x00, 0x00, 0xff, 0xff, 0xff, 0xff, 0xff, 0xff, 0xff, 0xff, 0x00, 0x01,
      0x00, 0x59, 0x41, 0x42, 0x43, 0x0a, 0x2d, 0x2d, 0x2d, 0x0a, 0x23, 0x20, 0x63,
      0x61, 0x70, 0x74, 0x75, 0x72, 0x65, 0x20, 0x74, 0x61, 0x72, 0x67, 0x65, 0x74,
      0x20, 0x69, 0x6e, 0x66, 0x6f, 0x72, 0x6d, 0x61, 0x74, 0x69, 0x6f, 0x6e, 0x0a,
      0x63, 0x6f, 0x6e, 0x74, 0x61, 0x69, 0x6e, 0x65, 0x72, 0x2d, 0x6e, 0x61, 0x6d,
      0x65, 0x3a, 0x20, 0x22, 0x22, 0x0a, 0x63, 0x6f, 0x6e, 0x74, 0x61, 0x69, 0x6e,
      0x65, 0x72, 0x2d, 0x74, 0x79, 0x70, 0x65, 0x3a, 0x20, 0x22, 0x22, 0x0a, 0x6e,
      0x6f, 0x64, 0x65, 0x2d, 0x6e, 0x61, 0x6d, 0x65, 0x3a, 0x20, 0x22, 0x22, 0x0a,
      0x00, 0x00, 0x00, 0x00, 0x00, 0x00, 0x7c, 0x01, 0x02, 0x03, 0x04, 0x05],
      (NewStreamEditor None [] False)\<lparr>Endian := Some BigEndian, shbLen := 72,
         passThrough := True, shb := []\<rparr>))"
  by code_simp

section \<open>The cache after Set and Clear\<close>




lemma SetLoop_returns: "None \<notin> set ps \<Longrightarrow> \<exists>m'. SetLoop h ps m = Inr m'"
proof (induction ps arbitrary: m)
  case Nil
  then show ?case by simp
next
  case (Cons t rest)
  then obtain a where "t = Some a" by (cases t) auto
  then show ?case
    using Cons by (simp add: Let_def)
qed

lemma Set_returns: "None \<notin> set ps \<Longrightarrow> \<exists>tc. Set h tc0 ps = Inr tc"
  using SetLoop_returns [of ps h Map.empty] by (auto simp: Set_def)



lemma example_cells [simp]:
  "cells exampleHeap 0 = target ''web'' ''pod'' [] ''node1'' ''packetflix-1''"
  "cells exampleHeap (Suc 0) = target ''web'' ''docker'' ''kind:'' ''node1'' ''packetflix-1''"
  "cells exampleHeap 2 = target ''db'' ''pod'' [] [] ''packetflix-1''"
  "cells exampleHeap 3 = target ''db'' ''pod'' [] [] ''packetflix-2''"
  "cells exampleHeap 4 = target ''web'' ''pod'' [] [] []"
  "cells exampleHeap 5 = target ''web'' ''pod'' [] ''node1'' ''packet/flix''"
  "nextFree exampleHeap = 6"
  by (simp_all add: exampleHeap_def)

lemma target_fields [simp]:
  "Name (target n t p d s) = n" "Type (target n t p d s) = t" "Prefix (target n t p d s) = p"
  "NodeName (target n t p d s) = d" "CaptureService (target n t p d s) = s"
  by (simp_all add: target_def)




text \<open>
  With empty node names the entry of (prefix, name, node name) is the entry of
  (prefix, name), and the last target written wins: of two pods "db", \<open>Pod\<close> finds
  the second.
\<close>

lemma Pod_empty_node_names:
  "andThen (Set exampleHeap emptyCache [Some 2, Some 3]) (\<lambda>tc. Pod exampleHeap tc ''db'')
     = Inr (Some 3, True)"
  by (simp add: Set_def Let_def Pod_def emptyCache_def)

text \<open>
  C9. \<open>Clear\<close> empties the list of targets only. After \<open>Set\<close> and \<open>Clear\<close> the cache
  is empty for \<open>IsEmpty\<close> and \<open>Targets\<close>, the index is the one that \<open>Set\<close> built, and
  \<open>Pod\<close> and \<open>OnNode\<close> answer as they did before the \<open>Clear\<close>.
\<close>

theorem Clear_keeps_index:
  assumes "None \<notin> set ps"
  shows "\<exists>tc. Set h tc0 ps = Inr tc
     \<and> IsEmpty (Clear tc) \<and> Targets (Clear tc) = [] \<and> index (Clear tc) = index tc
     \<and> (\<forall>x. Pod h (Clear tc) x = Pod h tc x)
     \<and> (\<forall>n p x. OnNode (Clear tc) n p x = OnNode tc n p x)"
  using Set_returns [OF assms, of h tc0]
  by (auto simp: IsEmpty_def Targets_def Clear_def Pod_def OnNode_def)

theorem Clear_keeps_index_witness:
  "Set exampleHeap emptyCache [Some 0, Some 1] = Inr exampleCache
   \<and> IsEmpty (Clear exampleCache)
   \<and> Pod exampleHeap (Clear exampleCache) ''web'' = Inr (Some 0, True)
   \<and> OnNode (Clear exampleCache) ''node1'' ''kind:'' ''web'' = (Some 1, True)"
proof -
  have n: "None \<notin> set [Some 0, Some (1::nat)]" by simp
  have s: "Set exampleHeap emptyCache [Some 0, Some 1] = Inr exampleCache"
    by (simp add: Set_def Let_def emptyCache_def exampleCache_def)
  have c: "IsEmpty (Clear exampleCache)"
    "\<forall>x. Pod exampleHeap (Clear exampleCache) x = Pod exampleHeap exampleCache x"
    "\<forall>n p x. OnNode (Clear exampleCache) n p x = OnNode exampleCache n p x"
    using Clear_keeps_index [OF n, of exampleHeap emptyCache] s by auto
  have "Pod exampleHeap exampleCache ''web'' = Inr (Some 0, True)"
    by (simp add: exampleCache_def Pod_def)
  moreover have "OnNode exampleCache ''node1'' ''kind:'' ''web'' = (Some 1, True)"
    by (simp add: exampleCache_def OnNode_def)
  ultimately show ?thesis
    using s c by auto
qed

section \<open>CompleteTarget, case by case\<close>

lemma CompleteTarget_nil: "CompleteTarget h None opts tc = Inr (Inl NoTargetSpecified, h)"
  by (simp add: CompleteTarget_def)

lemma CompleteTarget_routed:
  assumes "CaptureService (cells h a) \<noteq> []"
  shows "CompleteTarget h (Some a) opts tc =
     (if ContainsAny (CaptureService (cells h a)) ''/?%''
      then Inr (Inl InvalidRouting, h) else Inr (Inr a, h))"
  using assms by (simp add: CompleteTarget_def)

lemma CompleteTarget_not_found:
  assumes "CaptureService (cells h a) = []" and "cachedTarget h cache a = Inr (p, False)"
  shows "CompleteTarget h (Some a) opts (Some cache) = Inr (Inl NonExistingTarget, h)"
  using assms by (simp add: CompleteTarget_def cachedTarget_def split: if_splits)

lemma CompleteTarget_found:
  assumes "CaptureService (cells h a) = []" and "cachedTarget h cache a = Inr (Some c, True)"
  shows "CompleteTarget h (Some a) opts (Some cache) =
     Inr (if ContainsAny (CaptureService (cells h c)) ''/?%''
          then Inl InvalidRouting else Inr (nextFree h),
          h\<lparr>cells := (cells h)(nextFree h := cells h c), nextFree := Suc (nextFree h)\<rparr>)"
  using assms by (simp add: CompleteTarget_def cachedTarget_def alloc_def split: if_splits)

lemma ContainsAny_examples [simp]:
  "ContainsAny ''packet/flix'' ''/?%''" "\<not> ContainsAny ''packetflix-1'' ''/?%''"
  by (simp_all add: ContainsAny_def)

text \<open>
  C6, as the code has it. \<open>CompleteTarget\<close> fails with "no capture target specified"
  on a nil description. A description with a capture service free of the characters
  \<open>/\<close>, \<open>?\<close> and \<open>%\<close> is returned as it is: the same reference, the store unchanged.
  A description without capture service is looked up, a pod by name with \<open>Pod\<close>, any
  other target by node, prefix and name with \<open>OnNode\<close>; when the cache has none the call
  fails with "non-existing target", otherwise the result is a reference to a new copy
  of the cached target, with its capture service and port, and neither the description
  nor the cached target is changed. The call fails with "invalid capture service
  routing" whenever the capture service of the description it would return, given or
  cached, contains \<open>/\<close>, \<open>?\<close> or \<open>%\<close>.
\<close>

theorem CompleteTarget_cases:
  "CompleteTarget h None opts tc = Inr (Inl NoTargetSpecified, h)
   \<and> (CaptureService (cells h a) \<noteq> [] \<and> \<not> ContainsAny (CaptureService (cells h a)) ''/?%''
        \<longrightarrow> CompleteTarget h (Some a) opts tc = Inr (Inr a, h))
   \<and> (CaptureService (cells h a) \<noteq> [] \<and> ContainsAny (CaptureService (cells h a)) ''/?%''
        \<longrightarrow> CompleteTarget h (Some a) opts tc = Inr (Inl InvalidRouting, h))
   \<and> (CaptureService (cells h a) = [] \<and> cachedTarget h cache a = Inr (p, False)
        \<longrightarrow> CompleteTarget h (Some a) opts (Some cache) = Inr (Inl NonExistingTarget, h))
   \<and> (CaptureService (cells h a) = [] \<and> cachedTarget h cache a = Inr (Some c, True)
        \<longrightarrow> (\<exists>h'. CompleteTarget h (Some a) opts (Some cache)
                  = Inr (if ContainsAny (CaptureService (cells h c)) ''/?%''
                         then Inl InvalidRouting else Inr (nextFree h), h')
               \<and> cells h' (nextFree h) = cells h c
               \<and> (\<forall>b. b \<noteq> nextFree h \<longrightarrow> cells h' b = cells h b)
               \<and> nextFree h' = Suc (nextFree h)))"
proof -
  have "\<exists>h'. CompleteTarget h (Some a) opts (Some cache)
                  = Inr (if ContainsAny (CaptureService (cells h c)) ''/?%''
                         then Inl InvalidRouting else Inr (nextFree h), h')
               \<and> cells h' (nextFree h) = cells h c
               \<and> (\<forall>b. b \<noteq> nextFree h \<longrightarrow> cells h' b = cells h b)
               \<and> nextFree h' = Suc (nextFree h)"
    if "CaptureService (cells h a) = []" and "cachedTarget h cache a = Inr (Some c, True)"
    using CompleteTarget_found [OF that, of opts] by simp
  then show ?thesis
    using CompleteTarget_nil [of h opts tc] CompleteTarget_routed [of h a opts tc]
      CompleteTarget_not_found [of h a cache p opts]
    by simp
qed

theorem CompleteTarget_cases_witness:
  "CompleteTarget exampleHeap (Some 4) () (Some exampleCache)
     = Inr (Inr 6, exampleHeapCopied)
   \<and> cells exampleHeapCopied 6 = cells exampleHeap 0
   \<and> CompleteTarget exampleHeap (Some 0) () (Some exampleCache) = Inr (Inr 0, exampleHeap)
   \<and> CompleteTarget exampleHeap (Some 5) () (Some exampleCache)
       = Inr (Inl InvalidRouting, exampleHeap)"
proof -
  have "Pod exampleHeap exampleCache ''web'' = Inr (Some 0, True)"
    by (simp add: exampleCache_def Pod_def)
  then have l: "cachedTarget exampleHeap exampleCache 4 = Inr (Some 0, True)"
    by (simp add: cachedTarget_def)
  have e: "CaptureService (cells exampleHeap 4) = []" by simp
  obtain h' where c: "CompleteTarget exampleHeap (Some 4) () (Some exampleCache) = Inr (Inr 6, h')"
      and "cells h' 6 = cells exampleHeap 0"
      and "\<forall>b. b \<noteq> 6 \<longrightarrow> cells h' b = cells exampleHeap b"
      and "nextFree h' = 7"
    using CompleteTarget_cases [of exampleHeap "()" "Some exampleCache" 4 exampleCache None 0] e l
    by auto
  then have "cells h' = cells exampleHeapCopied" and "nextFree h' = nextFree exampleHeapCopied"
    by (auto simp: exampleHeapCopied_def)
  then have "h' = exampleHeapCopied"
    by simp
  then have "CompleteTarget exampleHeap (Some 4) () (Some exampleCache)
      = Inr (Inr 6, exampleHeapCopied)"
    using c by simp
  moreover have "cells exampleHeapCopied 6 = cells exampleHeap 0"
    by (simp add: exampleHeapCopied_def)
  moreover have "CompleteTarget exampleHeap (Some 0) () (Some exampleCache)
      = Inr (Inr 0, exampleHeap)"
    using CompleteTarget_cases [of exampleHeap "()" "Some exampleCache" 0 exampleCache None 0]
    by simp
  moreover have "CompleteTarget exampleHeap (Some 5) () (Some exampleCache)
      = Inr (Inl InvalidRouting, exampleHeap)"
    using CompleteTarget_cases [of exampleHeap "()" "Some exampleCache" 5 exampleCache None 0]
    by simp
  ultimately show ?thesis by blast
qed

text \<open>
  A description that carries the capture service "packet/flix" is not returned as it is.
\<close>

theorem CompleteTarget_cases_counterexample:
  "CaptureService (cells exampleHeap 5) = ''packet/flix''
   \<and> CompleteTarget exampleHeap (Some 5) () None = Inr (Inl InvalidRouting, exampleHeap)"
  by (simp add: CompleteTarget_def)

section \<open>Close racing Read\<close>

text \<open>
  When the peer stays silent, \<open>Close\<close> does what it is meant to do: after the grace
  period it closes the transport and the channel \<open>closed\<close>, and returns.
\<close>

lemma Close_silent_peer:
  "run [CloseLocked, TimerFires, SelectTimeout, ForceClose] start
     = Some \<lparr>ws = \<lparr>Closing = True, closed = True, connOpen = False, closeMessages = 1\<rparr>,
         closeAt = CloseReturned, readAt = ReadMessage, timerFired = True\<rparr>"
  by (simp add: step_def start_def New_def markClosing_def connClose_def closeChannel_def)

text \<open>
  \<open>Close\<close> never stays at its \<open>select\<close>: the timer fires, whatever the peer does, and
  the timer case can be taken. The call then returns if the channel is still open, and
  panics if \<open>Read\<close> has closed the channel in the meantime.
\<close>

lemma Close_leaves_select:
  assumes "closeAt s = CloseSelect"
  shows "\<exists>s'. run ((if timerFired s then [] else [TimerFires]) @ [SelectTimeout, ForceClose]) s
            = Some s'
          \<and> closeAt s' = (if closed (ws s) then ClosePanicked CloseOfClosedChannel
                           else CloseReturned)"
  using assms by (simp add: step_def connClose_def closeChannel_def)

text \<open>
  C7 fails on this schedule. \<open>Close\<close> sends its close message and waits; the grace
  period ends and its \<open>select\<close> takes the timer case; the acknowledgement of the peer
  arrives late and \<open>Read\<close> closes the transport and the channel; \<open>Close\<close>, in its timer
  case, closes the channel again. The call of \<open>Close\<close> ends in a panic, and no event can
  happen any more: \<open>Close\<close> does not return.
\<close>

theorem Close_panics_in_timer_case:
  "map_option closeAt
       (run [CloseLocked, TimerFires, SelectTimeout, PeerCloses, ReadLocked, ForceClose] start)
     = Some (ClosePanicked CloseOfClosedChannel)
   \<and> map_option enabled
       (run [CloseLocked, TimerFires, SelectTimeout, PeerCloses, ReadLocked, ForceClose] start)
     = Some []"
  by (simp add: step_def start_def New_def markClosing_def connClose_def closeChannel_def
      enabled_def events_def)

text \<open>
  C8 fails on this schedule. \<open>Close\<close> marks the websocket as closing and sends its close
  message; the grace period ends and the \<open>select\<close> of \<open>Close\<close> takes the timer case; the
  acknowledgement of the peer arrives and \<open>Read\<close>, in its locked section, closes the
  transport and the channel \<open>closed\<close>; \<open>Close\<close> goes on with its timer case and closes
  the channel a second time, which panics.
\<close>

theorem double_close_race:
  "run [CloseLocked, TimerFires, SelectTimeout, PeerCloses, ReadLocked, ForceClose] start
     = Some \<lparr>ws = \<lparr>Closing = True, closed = True, connOpen = False, closeMessages = 1\<rparr>,
         closeAt = ClosePanicked CloseOfClosedChannel, readAt = ReadReturned,
         timerFired = True\<rparr>"
  by (simp add: step_def start_def New_def markClosing_def connClose_def closeChannel_def)

end
